theory Spec2Isabelle
  imports Complex_Main
begin

section \<open>Arrays and errors\<close>

text \<open>
  The model of \<^verbatim>\<open>GPclust/OMGP.py\<close>. Python floats are read as real numbers (exact
  arithmetic), a one-dimensional numpy array is a list and a two-dimensional one a list
  of rows. An array without rows has no column count in this representation, so the
  theorems below speak about models with at least one data point. A division by zero
  gives \<open>inf\<close> or \<open>nan\<close> in numpy and 0 in HOL: the theorems about quotients assume what
  keeps their denominators away from zero.
\<close>

type_synonym vec = "real list"
type_synonym mat = "real list list"

datatype error = IndexError | ValueError | LinAlgError | HierarchyError

definition ebind :: "error + 'a \<Rightarrow> ('a \<Rightarrow> error + 'b) \<Rightarrow> error + 'b" where
  "ebind m f = (case m of Inl e \<Rightarrow> Inl e | Inr x \<Rightarrow> f x)"

definition nrows :: "mat \<Rightarrow> nat" where
  "nrows A = length A"

definition ncols :: "mat \<Rightarrow> nat" where
  "ncols A = (case A of [] \<Rightarrow> 0 | r # _ \<Rightarrow> length r)"

definition is_mat :: "nat \<Rightarrow> nat \<Rightarrow> mat \<Rightarrow> bool" where
  "is_mat r c A = (length A = r \<and> list_all (\<lambda>row. length row = c) A)"

text \<open>Python indexing of a list: negative indices count from the end.\<close>

definition getitem :: "'a list \<Rightarrow> int \<Rightarrow> error + 'a" where
  "getitem xs i =
     (if 0 \<le> i \<and> i < int (length xs) then Inr (xs ! nat i)
      else if - int (length xs) \<le> i \<and> i < 0 then Inr (xs ! nat (int (length xs) + i))
      else Inl IndexError)"

text \<open>\<^verbatim>\<open>A[:, i]\<close>: the \<open>i\<close>-th column, with the same index rule on the column axis.\<close>

definition column :: "mat \<Rightarrow> int \<Rightarrow> error + vec" where
  "column A i =
     (if 0 \<le> i \<and> i < int (ncols A) then Inr (map (\<lambda>row. row ! nat i) A)
      else if - int (ncols A) \<le> i \<and> i < 0
      then Inr (map (\<lambda>row. row ! nat (int (ncols A) + i)) A)
      else Inl IndexError)"

text \<open>\<^verbatim>\<open>np.diag(v)\<close> of a one-dimensional array.\<close>

definition diag :: "vec \<Rightarrow> mat" where
  "diag v = map (\<lambda>i. (replicate (length v) 0)[i := v ! i]) [0..<length v]"

text \<open>
  Element-wise binary operations follow numpy's broadcasting on two axes: the sizes of
  an axis agree, or one of them is 1 and is stretched; anything else raises ValueError.
\<close>

definition bdim :: "nat \<Rightarrow> nat \<Rightarrow> nat option" where
  "bdim a b = (if a = b then Some a else if a = 1 then Some b
               else if b = 1 then Some a else None)"

definition stretch :: "nat \<Rightarrow> 'a list \<Rightarrow> 'a list" where
  "stretch n xs = (if length xs = n then xs else replicate n (hd xs))"

definition broadcast2 :: "(real \<Rightarrow> real \<Rightarrow> real) \<Rightarrow> mat \<Rightarrow> mat \<Rightarrow> error + mat" where
  "broadcast2 f A B =
     (case bdim (nrows A) (nrows B) of
        None \<Rightarrow> Inl ValueError
      | Some r \<Rightarrow>
          (case bdim (ncols A) (ncols B) of
             None \<Rightarrow> Inl ValueError
           | Some c \<Rightarrow>
               Inr (map2 (\<lambda>a b. map2 f (stretch c a) (stretch c b))
                      (stretch r A) (stretch r B))))"

definition np_add :: "mat \<Rightarrow> mat \<Rightarrow> error + mat" where
  "np_add A B = broadcast2 (\<lambda>a b. a + b) A B"

definition np_sub :: "mat \<Rightarrow> mat \<Rightarrow> error + mat" where
  "np_sub A B = broadcast2 (\<lambda>a b. a - b) A B"

definition np_mul :: "mat \<Rightarrow> mat \<Rightarrow> error + mat" where
  "np_mul A B = broadcast2 (\<lambda>a b. a * b) A B"

text \<open>\<^verbatim>\<open>A.T\<close>, \<^verbatim>\<open>np.dot\<close>, \<^verbatim>\<open>np.trace\<close>, and the outer product \<^verbatim>\<open>tdot(a)\<close> = \<open>a a\<^sup>T\<close>.\<close>

definition np_T :: "mat \<Rightarrow> mat" where
  "np_T A = map (\<lambda>j. map (\<lambda>row. row ! j) A) [0..<ncols A]"

definition dotp :: "vec \<Rightarrow> vec \<Rightarrow> real" where
  "dotp u v = sum_list (map2 (\<lambda>a b. a * b) u v)"

definition mat_mul :: "mat \<Rightarrow> mat \<Rightarrow> mat" where
  "mat_mul A B = map (\<lambda>r. map (dotp r) (np_T B)) A"

definition np_dot :: "mat \<Rightarrow> mat \<Rightarrow> error + mat" where
  "np_dot A B = (if ncols A = nrows B then Inr (mat_mul A B) else Inl ValueError)"

definition trace :: "mat \<Rightarrow> real" where
  "trace A = sum_list (map (\<lambda>j. A ! j ! j) [0..<min (nrows A) (ncols A)])"

definition tdot :: "mat \<Rightarrow> mat" where
  "tdot a = map (\<lambda>r. map (dotp r) a) a"

definition zeros_like :: "mat \<Rightarrow> mat" where
  "zeros_like A = map (map (\<lambda>_. 0)) A"

text \<open>\<^verbatim>\<open>A[n, m] = v\<close> on a fresh array; numpy raises IndexError outside the array.\<close>

definition setitem2 :: "mat \<Rightarrow> nat \<Rightarrow> nat \<Rightarrow> real \<Rightarrow> error + mat" where
  "setitem2 A n m v =
     (if n < nrows A \<and> m < ncols A then Inr (A[n := (A ! n)[m := v]])
      else Inl IndexError)"

text \<open>\<^verbatim>\<open>np.sum(A, 1)[:, None]\<close>: the row sums as a one-column array.\<close>

definition row_sums_col :: "mat \<Rightarrow> mat" where
  "row_sums_col A = map (\<lambda>row. [sum_list row]) A"

definition flatten :: "mat \<Rightarrow> vec" where
  "flatten A = concat A"

text \<open>\<^verbatim>\<open>A[n, m]\<close> read, and a scalar applied to every entry (\<^verbatim>\<open>c * A\<close>, \<^verbatim>\<open>c + A\<close>).\<close>

definition getitem2 :: "mat \<Rightarrow> nat \<Rightarrow> nat \<Rightarrow> error + real" where
  "getitem2 A n m = (if n < nrows A \<and> m < ncols A then Inr (A ! n ! m) else Inl IndexError)"

definition smul :: "real \<Rightarrow> mat \<Rightarrow> mat" where
  "smul c A = map (map (\<lambda>a. c * a)) A"

definition sadd :: "real \<Rightarrow> mat \<Rightarrow> mat" where
  "sadd c A = map (map (\<lambda>a. c + a)) A"

section \<open>The model state and its collaborators\<close>

text \<open>
  Kernel objects live in a store and are named by references: the kernel list and the
  list of linked (trainable) parameters hold references, so a copy is a new object and
  unlinking removes one object, not a value.
\<close>

type_synonym ref = nat

datatype param = PVariance | PKern ref

record 'k omgp =
  X :: mat
  Y :: mat
  D :: nat
  N :: nat
  K :: nat
  phi :: mat
  H :: real
  Hgrad :: mat
  kern :: "ref list"
  variance :: real
  variance_gradient :: real
  parameters :: "param list"
  heap :: "ref \<Rightarrow> 'k"
  next_ref :: ref

text \<open>
  What the model consumes from GPy, scipy, numpy and the collapsed-mixture base class.
  Each library call that can raise returns an \<open>error +\<close> result. \<open>'f\<close> is the
  factorisation object that \<^verbatim>\<open>cho_factor\<close> hands to \<^verbatim>\<open>cho_solve\<close>.
\<close>

record ('k, 'f) env =
  kern_K :: "'k \<Rightarrow> mat \<Rightarrow> error + mat"
  kern_K2 :: "'k \<Rightarrow> mat \<Rightarrow> mat \<Rightarrow> error + mat"
  kern_copy :: "'k \<Rightarrow> 'k"
  update_gradients_full :: "'k \<Rightarrow> mat \<Rightarrow> mat \<Rightarrow> error + 'k"
  cho_factor :: "mat \<Rightarrow> error + 'f"
  cho_solve :: "'f \<Rightarrow> mat \<Rightarrow> error + mat"
  linalg_solve :: "mat \<Rightarrow> mat \<Rightarrow> error + mat"
  pdinv :: "mat \<Rightarrow> error + mat"
  slogdet :: "mat \<Rightarrow> error + real \<times> real"
  mixing_prop_bound :: "'k omgp \<Rightarrow> real"
  mixing_prop_bound_grad :: "'k omgp \<Rightarrow> mat"

section \<open>bound\<close>

text \<open>
  Lines 85 to 107. The loop runs over \<^verbatim>\<open>enumerate(self.kern)\<close> and adds three terms to
  \<^verbatim>\<open>GP_bound\<close> per component: the data fit, the penalty and the constant, computed in
  this order by \<open>bound_terms\<close>, the body of the loop. \<^verbatim>\<open>K + B_inv\<close> is formed once for the
  solve and once for the log-determinant.
\<close>

definition bound_B_inv :: "'k omgp \<Rightarrow> nat \<Rightarrow> error + mat" where
  "bound_B_inv st i =
     ebind (column (phi st) (int i)) (\<lambda>phi_i.
       Inr (diag (map (\<lambda>p. 1 / ((p + 1 / 1000000) / variance st)) phi_i)))"

definition bound_terms ::
  "('k, 'f) env \<Rightarrow> 'k omgp \<Rightarrow> nat \<Rightarrow> ref \<Rightarrow> error + real \<times> real \<times> real" where
  "bound_terms env st i kr =
     ebind (kern_K env (heap st kr) (X st)) (\<lambda>Km.
     ebind (bound_B_inv st i) (\<lambda>B_inv.
     ebind (np_add Km B_inv) (\<lambda>A.
     ebind (cho_factor env A) (\<lambda>c.
     ebind (cho_solve env c (Y st)) (\<lambda>alpha.
     ebind (np_dot (np_T (Y st)) alpha) (\<lambda>Ya.
     ebind (np_add Km B_inv) (\<lambda>A'.
     ebind (slogdet env A') (\<lambda>sl.
     ebind (column (phi st) (int i)) (\<lambda>phi_i.
       Inr (- (1 / 2) * trace Ya,
            - (1 / 2) * snd sl,
            - (1 / 2) * sum_list (map (\<lambda>p. p * ln (2 * pi * variance st)) phi_i)))))))))))"

fun bound_loop :: "('k, 'f) env \<Rightarrow> 'k omgp \<Rightarrow> (nat \<times> ref) list \<Rightarrow> real \<Rightarrow> error + real" where
  "bound_loop env st [] GP_bound = Inr GP_bound"
| "bound_loop env st ((i, kr) # rest) GP_bound =
     ebind (bound_terms env st i kr) (\<lambda>(fit, penalty, const).
       bound_loop env st rest (GP_bound + fit + penalty + const))"

definition bound :: "('k, 'f) env \<Rightarrow> 'k omgp \<Rightarrow> (error + real) \<times> 'k omgp" where
  "bound env st =
     (ebind (bound_loop env st (enumerate 0 (kern st)) 0) (\<lambda>GP_bound.
        Inr (GP_bound + mixing_prop_bound env st + H st)),
      st)"

section \<open>do_computations\<close>

text \<open>
  Lines 38 to 51. \<^verbatim>\<open>link_parameter\<close> and \<^verbatim>\<open>unlink_parameter\<close> keep the list of
  trainable parameters; they refuse a parameter that is already linked, respectively one
  that is not linked. An error leaves the state as it was when the error was raised.
\<close>

definition link_parameter :: "param \<Rightarrow> 'k omgp \<Rightarrow> (error + unit) \<times> 'k omgp" where
  "link_parameter p st =
     (if p \<in> set (parameters st) then (Inl HierarchyError, st)
      else (Inr (), st\<lparr>parameters := parameters st @ [p]\<rparr>))"

definition unlink_parameter :: "param \<Rightarrow> 'k omgp \<Rightarrow> (error + unit) \<times> 'k omgp" where
  "unlink_parameter p st =
     (if p \<in> set (parameters st) then (Inr (), st\<lparr>parameters := remove1 p (parameters st)\<rparr>)
      else (Inl HierarchyError, st))"

fun unlink_all :: "ref list \<Rightarrow> 'k omgp \<Rightarrow> (error + unit) \<times> 'k omgp" where
  "unlink_all [] st = (Inr (), st)"
| "unlink_all (r # rs) st =
     (case unlink_parameter (PKern r) st of
        (Inl e, st') \<Rightarrow> (Inl e, st')
      | (Inr _, st') \<Rightarrow> unlink_all rs st')"

text \<open>\<^verbatim>\<open>self.kern.append(self.kern[-1].copy())\<close>: the copy is a new object in the store.\<close>

definition append_copy :: "('k, 'f) env \<Rightarrow> 'k omgp \<Rightarrow> (error + unit) \<times> 'k omgp" where
  "append_copy env st =
     (case getitem (kern st) (- 1) of
        Inl e \<Rightarrow> (Inl e, st)
      | Inr r \<Rightarrow>
          (Inr (), st\<lparr>kern := kern st @ [next_ref st],
                      heap := (heap st)(next_ref st := kern_copy env (heap st r)),
                      next_ref := Suc (next_ref st)\<rparr>))"

definition grow :: "('k, 'f) env \<Rightarrow> 'k omgp \<Rightarrow> (error + unit) \<times> 'k omgp" where
  "grow env st =
     (if length (kern st) < K st then
        (case append_copy env st of
           (Inl e, st1) \<Rightarrow> (Inl e, st1)
         | (Inr _, st1) \<Rightarrow>
             (case getitem (kern st1) (- 1) of
                Inl e \<Rightarrow> (Inl e, st1)
              | Inr r \<Rightarrow> link_parameter (PKern r) st1))
      else (Inr (), st))"

definition shrink :: "'k omgp \<Rightarrow> (error + unit) \<times> 'k omgp" where
  "shrink st =
     (if length (kern st) > K st then
        (case unlink_all (drop (K st) (kern st)) st of
           (Inl e, st1) \<Rightarrow> (Inl e, st1)
         | (Inr _, st1) \<Rightarrow> (Inr (), st1\<lparr>kern := take (K st1) (kern st1)\<rparr>))
      else (Inr (), st))"

definition do_computations :: "('k, 'f) env \<Rightarrow> 'k omgp \<Rightarrow> (error + unit) \<times> 'k omgp" where
  "do_computations env st =
     (case grow env st of
        (Inl e, st1) \<Rightarrow> (Inl e, st1)
      | (Inr _, st1) \<Rightarrow> shrink st1)"

section \<open>update_kern_grads\<close>

text \<open>
  Lines 53 to 83: a first loop hands \<open>dL/dK\<close> to every kernel, a second loop adds up
  the gradient of the noise variance and stores the running sum in every iteration.
\<close>

definition ukg_B_inv :: "'k omgp \<Rightarrow> nat \<Rightarrow> error + mat" where
  "ukg_B_inv st i =
     ebind (column (phi st) (int i)) (\<lambda>phi_i.
       Inr (diag (map (\<lambda>p. 1 / (p / variance st)) phi_i)))"

definition ukg_dL_dK :: "('k, 'f) env \<Rightarrow> 'k omgp \<Rightarrow> nat \<Rightarrow> ref \<Rightarrow> error + mat" where
  "ukg_dL_dK env st i kr =
     ebind (kern_K env (heap st kr) (X st)) (\<lambda>Km.
     ebind (ukg_B_inv st i) (\<lambda>B_inv.
     ebind (np_add Km B_inv) (\<lambda>A.
     ebind (cho_factor env A) (\<lambda>c.
     ebind (cho_solve env c (Y st)) (\<lambda>alpha.
     ebind (np_add Km B_inv) (\<lambda>A'.
     ebind (pdinv env A') (\<lambda>K_B_inv.
     ebind (np_sub (tdot alpha) K_B_inv) (\<lambda>d.
       Inr (smul (1 / 2) d)))))))))"

fun ukg_kern_loop ::
  "('k, 'f) env \<Rightarrow> (nat \<times> ref) list \<Rightarrow> 'k omgp \<Rightarrow> (error + unit) \<times> 'k omgp" where
  "ukg_kern_loop env [] st = (Inr (), st)"
| "ukg_kern_loop env ((i, kr) # rest) st =
     (case ukg_dL_dK env st i kr of
        Inl e \<Rightarrow> (Inl e, st)
      | Inr dL_dK \<Rightarrow>
          (case update_gradients_full env (heap st kr) dL_dK (X st) of
             Inl e \<Rightarrow> (Inl e, st)
           | Inr k' \<Rightarrow> ukg_kern_loop env rest (st\<lparr>heap := (heap st)(kr := k')\<rparr>)))"

definition ukg_variance_B_inv :: "'k omgp \<Rightarrow> nat \<Rightarrow> error + mat" where
  "ukg_variance_B_inv st i =
     ebind (column (phi st) (int i)) (\<lambda>phi_i.
       Inr (diag (map (\<lambda>p. 1 / ((p + 1 / 1000000) / variance st)) phi_i)))"

definition ukg_variance_term :: "('k, 'f) env \<Rightarrow> 'k omgp \<Rightarrow> nat \<Rightarrow> ref \<Rightarrow> error + real" where
  "ukg_variance_term env st i kr =
     ebind (kern_K env (heap st kr) (X st)) (\<lambda>Km.
     ebind (ukg_variance_B_inv st i) (\<lambda>B_inv.
     ebind (np_add Km B_inv) (\<lambda>A.
     ebind (linalg_solve env A (Y st)) (\<lambda>alpha.
     ebind (np_add Km B_inv) (\<lambda>A'.
     ebind (pdinv env A') (\<lambda>K_B_inv.
     ebind (np_sub (tdot alpha) K_B_inv) (\<lambda>dL_dB.
     ebind (column (phi st) (int i)) (\<lambda>phi_i.
     ebind (np_dot dL_dB (diag (map (\<lambda>p. 1 / (p + 1 / 1000000)) phi_i))) (\<lambda>M.
       Inr (1 / 2 * trace M))))))))))"

fun ukg_variance_loop ::
  "('k, 'f) env \<Rightarrow> (nat \<times> ref) list \<Rightarrow> real \<Rightarrow> 'k omgp \<Rightarrow> (error + real) \<times> 'k omgp" where
  "ukg_variance_loop env [] grad_Lm_variance st = (Inr grad_Lm_variance, st)"
| "ukg_variance_loop env ((i, kr) # rest) grad_Lm_variance st =
     (case ukg_variance_term env st i kr of
        Inl e \<Rightarrow> (Inl e, st)
      | Inr t \<Rightarrow>
          ukg_variance_loop env rest (grad_Lm_variance + t)
            (st\<lparr>variance_gradient := grad_Lm_variance + t\<rparr>))"

definition update_kern_grads :: "('k, 'f) env \<Rightarrow> 'k omgp \<Rightarrow> (error + unit) \<times> 'k omgp" where
  "update_kern_grads env st =
     (case ukg_kern_loop env (enumerate 0 (kern st)) st of
        (Inl e, st1) \<Rightarrow> (Inl e, st1)
      | (Inr _, st1) \<Rightarrow>
          (case ukg_variance_loop env (enumerate 0 (kern st1)) 0 st1 of
             (Inl e, st2) \<Rightarrow> (Inl e, st2)
           | (Inr _, st2) \<Rightarrow> (Inr (), st2)))"

section \<open>vb_grad_natgrad\<close>

text \<open>
  Lines 109 to 134. The unused \<^verbatim>\<open>I = np.eye(self.N)\<close> is left out. The denominators of
  the two quotients of the function have names: \<^verbatim>\<open>(self.phi[:, i] + 1e-6) / self.variance\<close>,
  which line 119 inverts, and \<^verbatim>\<open>self.phi[n, i] ** 2 + 1e-6\<close> of line 126.
\<close>

definition B_inv_denominator :: "'k omgp \<Rightarrow> real \<Rightarrow> real" where
  "B_inv_denominator st p = (p + 1 / 1000000) / variance st"

definition perturbation_denominator :: "real \<Rightarrow> real" where
  "perturbation_denominator p = p\<^sup>2 + 1 / 1000000"

definition natgrad_B_inv :: "'k omgp \<Rightarrow> nat \<Rightarrow> error + mat" where
  "natgrad_B_inv st i =
     ebind (column (phi st) (int i)) (\<lambda>phi_i.
       Inr (diag (map (\<lambda>p. 1 / B_inv_denominator st p) phi_i)))"

fun natgrad_inner ::
  "'k omgp \<Rightarrow> mat \<Rightarrow> mat \<Rightarrow> nat \<Rightarrow> nat list \<Rightarrow> mat \<Rightarrow> error + mat" where
  "natgrad_inner st dL_dB B_inv i [] grad_Lm = Inr grad_Lm"
| "natgrad_inner st dL_dB B_inv i (n # ns) grad_Lm =
     ebind (getitem2 (phi st) n i) (\<lambda>p.
     ebind (setitem2 (zeros_like B_inv) n n (- variance st / perturbation_denominator p)) (\<lambda>grad_B_inv.
     ebind (np_dot dL_dB grad_B_inv) (\<lambda>M.
     ebind (setitem2 grad_Lm n i (1 / 2 * trace M)) (\<lambda>grad_Lm'.
       natgrad_inner st dL_dB B_inv i ns grad_Lm'))))"

fun natgrad_loop ::
  "('k, 'f) env \<Rightarrow> 'k omgp \<Rightarrow> (nat \<times> ref) list \<Rightarrow> mat \<Rightarrow> error + mat" where
  "natgrad_loop env st [] grad_Lm = Inr grad_Lm"
| "natgrad_loop env st ((i, kr) # rest) grad_Lm =
     ebind (kern_K env (heap st kr) (X st)) (\<lambda>Km.
     ebind (natgrad_B_inv st i) (\<lambda>B_inv.
     ebind (np_add Km B_inv) (\<lambda>A.
     ebind (linalg_solve env A (Y st)) (\<lambda>alpha.
     ebind (np_add Km B_inv) (\<lambda>A'.
     ebind (pdinv env A') (\<lambda>K_B_inv.
     ebind (np_sub (tdot alpha) K_B_inv) (\<lambda>dL_dB.
     ebind (natgrad_inner st dL_dB B_inv i [0..<nrows (phi st)] grad_Lm) (\<lambda>grad_Lm'.
       natgrad_loop env st rest grad_Lm'))))))))"

definition natgrad_project :: "mat \<Rightarrow> mat \<Rightarrow> error + vec \<times> vec" where
  "natgrad_project ph grad_phi =
     ebind (np_mul ph grad_phi) (\<lambda>pg.
     ebind (np_sub grad_phi (row_sums_col pg)) (\<lambda>natgrad.
     ebind (np_mul natgrad ph) (\<lambda>grad.
       Inr (flatten grad, flatten natgrad))))"

definition vb_grad_natgrad ::
  "('k, 'f) env \<Rightarrow> 'k omgp \<Rightarrow> (error + vec \<times> vec) \<times> 'k omgp" where
  "vb_grad_natgrad env st =
     (ebind (natgrad_loop env st (enumerate 0 (kern st)) (zeros_like (phi st))) (\<lambda>grad_Lm.
      ebind (np_add grad_Lm (mixing_prop_bound_grad env st)) (\<lambda>g.
      ebind (np_add g (Hgrad st)) (\<lambda>grad_phi.
        natgrad_project (phi st) grad_phi))),
      st)"

section \<open>predict\<close>

text \<open>Lines 136 to 152. The component index is any Python integer.\<close>

definition predict_B_inv :: "'k omgp \<Rightarrow> int \<Rightarrow> error + mat" where
  "predict_B_inv st i =
     ebind (column (phi st) i) (\<lambda>phi_i.
       Inr (diag (map (\<lambda>p. 1 / (p / variance st)) phi_i)))"

definition predict ::
  "('k, 'f) env \<Rightarrow> 'k omgp \<Rightarrow> mat \<Rightarrow> int \<Rightarrow> (error + mat \<times> mat) \<times> 'k omgp" where
  "predict env st Xnew i =
     (ebind (getitem (kern st) i) (\<lambda>kr.
      ebind (kern_K env (heap st kr) (X st)) (\<lambda>Km.
      ebind (kern_K2 env (heap st kr) (X st) Xnew) (\<lambda>kx.
      ebind (predict_B_inv st i) (\<lambda>B_inv.
      ebind (np_add Km B_inv) (\<lambda>A.
      ebind (linalg_solve env A (Y st)) (\<lambda>a.
      ebind (np_dot (np_T kx) a) (\<lambda>mu.
      ebind (kern_K2 env (heap st kr) Xnew Xnew) (\<lambda>kxx.
      ebind (np_add Km B_inv) (\<lambda>A'.
      ebind (linalg_solve env A' kx) (\<lambda>b.
      ebind (np_dot (np_T kx) b) (\<lambda>q.
      ebind (np_sub (sadd (variance st) kxx) q) (\<lambda>va.
        Inr (mu, va))))))))))))),
      st)"

section \<open>predict_components\<close>




section \<open>The model in a store\<close>

text \<open>
  \<^verbatim>\<open>bound\<close> and \<^verbatim>\<open>vb_grad_natgrad\<close> once more, this time with every effect they could have:
  arrays live in a store and are named by addresses, the attributes \<^verbatim>\<open>self.X\<close>, \<^verbatim>\<open>self.Y\<close>,
  \<^verbatim>\<open>self.phi\<close> and \<^verbatim>\<open>self.Hgrad\<close> hold addresses, \<^verbatim>\<open>np.zeros_like\<close> allocates a new array, and
  \<^verbatim>\<open>A[n, m] = v\<close> writes into the array at an address. Every attribute is read from the
  state at the moment the source reads it. Arrays that the code only builds and reads
  (the results of \<^verbatim>\<open>np.diag\<close>, \<^verbatim>\<open>+\<close>, \<^verbatim>\<open>np.dot\<close>, \<^verbatim>\<open>tdot\<close>) are values; the arrays that it
  writes into by index are allocated in the store. The unused \<^verbatim>\<open>np.eye(self.N)\<close> of line
  117 is left out.
\<close>

type_synonym addr = nat

record 'k machine =
  arrays :: "addr \<Rightarrow> mat"
  next_addr :: addr
  X_at :: addr
  Y_at :: addr
  phi_at :: addr
  Hgrad_at :: addr
  kern_refs :: "ref list"
  objects :: "ref \<Rightarrow> 'k"
  variance_value :: real
  H_value :: real

definition return_m :: "'a \<Rightarrow> 'k machine \<Rightarrow> (error + 'a) \<times> 'k machine" where
  "return_m x = (\<lambda>s. (Inr x, s))"

definition lift_m :: "error + 'a \<Rightarrow> 'k machine \<Rightarrow> (error + 'a) \<times> 'k machine" where
  "lift_m r = (\<lambda>s. (r, s))"

definition read_m :: "('k machine \<Rightarrow> 'a) \<Rightarrow> 'k machine \<Rightarrow> (error + 'a) \<times> 'k machine" where
  "read_m f = (\<lambda>s. (Inr (f s), s))"

definition bind_m ::
  "('k machine \<Rightarrow> (error + 'a) \<times> 'k machine) \<Rightarrow> ('a \<Rightarrow> 'k machine \<Rightarrow> (error + 'b) \<times> 'k machine)
     \<Rightarrow> 'k machine \<Rightarrow> (error + 'b) \<times> 'k machine" where
  "bind_m m f = (\<lambda>s. case m s of (Inl e, s') \<Rightarrow> (Inl e, s') | (Inr x, s') \<Rightarrow> f x s')"

definition alloc :: "mat \<Rightarrow> 'k machine \<Rightarrow> (error + addr) \<times> 'k machine" where
  "alloc A = (\<lambda>s. (Inr (next_addr s),
     s\<lparr>arrays := (arrays s)(next_addr s := A), next_addr := Suc (next_addr s)\<rparr>))"

definition setitem_at :: "addr \<Rightarrow> nat \<Rightarrow> nat \<Rightarrow> real \<Rightarrow> 'k machine \<Rightarrow> (error + unit) \<times> 'k machine" where
  "setitem_at a n m v = (\<lambda>s. case setitem2 (arrays s a) n m v of
       Inl e \<Rightarrow> (Inl e, s)
     | Inr A \<Rightarrow> (Inr (), s\<lparr>arrays := (arrays s)(a := A)\<rparr>))"

text \<open>
  The collaborators are state transformers: a call into GPy, scipy, numpy or the base
  class may allocate, fill a cache in a kernel object, or do anything else to the store.
  \<open>lib_params\<close> reads the parameter values of a kernel object.
\<close>

record ('k, 'f) lib =
  lib_kern_K :: "ref \<Rightarrow> mat \<Rightarrow> 'k machine \<Rightarrow> (error + mat) \<times> 'k machine"
  lib_cho_factor :: "mat \<Rightarrow> 'k machine \<Rightarrow> (error + 'f) \<times> 'k machine"
  lib_cho_solve :: "'f \<Rightarrow> mat \<Rightarrow> 'k machine \<Rightarrow> (error + mat) \<times> 'k machine"
  lib_linalg_solve :: "mat \<Rightarrow> mat \<Rightarrow> 'k machine \<Rightarrow> (error + mat) \<times> 'k machine"
  lib_pdinv :: "mat \<Rightarrow> 'k machine \<Rightarrow> (error + mat) \<times> 'k machine"
  lib_slogdet :: "mat \<Rightarrow> 'k machine \<Rightarrow> (error + real \<times> real) \<times> 'k machine"
  lib_mixing_prop_bound :: "'k machine \<Rightarrow> (error + real) \<times> 'k machine"
  lib_mixing_prop_bound_grad :: "'k machine \<Rightarrow> (error + mat) \<times> 'k machine"
  lib_params :: "'k \<Rightarrow> real list"

text \<open>Lines 85 to 107, statement by statement.\<close>

definition bound_terms_m ::
  "('k, 'f) lib \<Rightarrow> nat \<Rightarrow> ref \<Rightarrow> 'k machine \<Rightarrow> (error + real \<times> real \<times> real) \<times> 'k machine" where
  "bound_terms_m lib i kr =
     bind_m (read_m (\<lambda>s. arrays s (X_at s))) (\<lambda>Xv.
     bind_m (lib_kern_K lib kr Xv) (\<lambda>Km.
     bind_m (read_m (\<lambda>s. arrays s (phi_at s))) (\<lambda>ph.
     bind_m (lift_m (column ph (int i))) (\<lambda>phi_i.
     bind_m (read_m variance_value) (\<lambda>var.
     bind_m (return_m (diag (map (\<lambda>p. 1 / ((p + 1 / 1000000) / var)) phi_i))) (\<lambda>B_inv.
     bind_m (lift_m (np_add Km B_inv)) (\<lambda>A.
     bind_m (lib_cho_factor lib A) (\<lambda>c.
     bind_m (read_m (\<lambda>s. arrays s (Y_at s))) (\<lambda>Yv.
     bind_m (lib_cho_solve lib c Yv) (\<lambda>alpha.
     bind_m (read_m (\<lambda>s. arrays s (Y_at s))) (\<lambda>Yv'.
     bind_m (lift_m (np_dot (np_T Yv') alpha)) (\<lambda>Ya.
     bind_m (lift_m (np_add Km B_inv)) (\<lambda>A'.
     bind_m (lib_slogdet lib A') (\<lambda>sl.
     bind_m (read_m (\<lambda>s. arrays s (phi_at s))) (\<lambda>ph'.
     bind_m (lift_m (column ph' (int i))) (\<lambda>phi_i'.
     bind_m (read_m variance_value) (\<lambda>var'.
       return_m (- (1 / 2) * trace Ya,
                 - (1 / 2) * snd sl,
                 - (1 / 2) * sum_list (map (\<lambda>p. p * ln (2 * pi * var')) phi_i'))
     )))))))))))))))))"

fun bound_loop_m ::
  "('k, 'f) lib \<Rightarrow> (nat \<times> ref) list \<Rightarrow> real \<Rightarrow> 'k machine \<Rightarrow> (error + real) \<times> 'k machine" where
  "bound_loop_m lib [] GP_bound = return_m GP_bound"
| "bound_loop_m lib ((i, kr) # rest) GP_bound =
     bind_m (bound_terms_m lib i kr) (\<lambda>(fit, penalty, const).
       bound_loop_m lib rest (GP_bound + fit + penalty + const))"

definition bound_m :: "('k, 'f) lib \<Rightarrow> 'k machine \<Rightarrow> (error + real) \<times> 'k machine" where
  "bound_m lib =
     bind_m (read_m kern_refs) (\<lambda>ks.
     bind_m (bound_loop_m lib (enumerate 0 ks) 0) (\<lambda>GP_bound.
     bind_m (lib_mixing_prop_bound lib) (\<lambda>mp.
     bind_m (read_m H_value) (\<lambda>h.
       return_m (GP_bound + mp + h)))))"

text \<open>
  Lines 109 to 134. \<^verbatim>\<open>grad_Lm\<close> and \<^verbatim>\<open>grad_B_inv\<close> are the arrays that the function allocates
  and then writes into by index.
\<close>

fun natgrad_inner_m ::
  "mat \<Rightarrow> mat \<Rightarrow> nat \<Rightarrow> nat list \<Rightarrow> addr \<Rightarrow> 'k machine \<Rightarrow> (error + unit) \<times> 'k machine" where
  "natgrad_inner_m dL_dB B_inv i [] grad_Lm = return_m ()"
| "natgrad_inner_m dL_dB B_inv i (n # ns) grad_Lm =
     bind_m (alloc (zeros_like B_inv)) (\<lambda>grad_B_inv.
     bind_m (read_m variance_value) (\<lambda>var.
     bind_m (read_m (\<lambda>s. arrays s (phi_at s))) (\<lambda>ph.
     bind_m (lift_m (getitem2 ph n i)) (\<lambda>p.
     bind_m (setitem_at grad_B_inv n n (- var / perturbation_denominator p)) (\<lambda>_.
     bind_m (read_m (\<lambda>s. arrays s grad_B_inv)) (\<lambda>G.
     bind_m (lift_m (np_dot dL_dB G)) (\<lambda>M.
     bind_m (setitem_at grad_Lm n i (1 / 2 * trace M)) (\<lambda>_.
       natgrad_inner_m dL_dB B_inv i ns grad_Lm))))))))"

fun natgrad_loop_m ::
  "('k, 'f) lib \<Rightarrow> (nat \<times> ref) list \<Rightarrow> addr \<Rightarrow> 'k machine \<Rightarrow> (error + unit) \<times> 'k machine" where
  "natgrad_loop_m lib [] grad_Lm = return_m ()"
| "natgrad_loop_m lib ((i, kr) # rest) grad_Lm =
     bind_m (read_m (\<lambda>s. arrays s (X_at s))) (\<lambda>Xv.
     bind_m (lib_kern_K lib kr Xv) (\<lambda>Km.
     bind_m (read_m (\<lambda>s. arrays s (phi_at s))) (\<lambda>ph.
     bind_m (lift_m (column ph (int i))) (\<lambda>phi_i.
     bind_m (read_m variance_value) (\<lambda>var.
     bind_m (return_m (diag (map (\<lambda>p. 1 / ((p + 1 / 1000000) / var)) phi_i))) (\<lambda>B_inv.
     bind_m (lift_m (np_add Km B_inv)) (\<lambda>A.
     bind_m (read_m (\<lambda>s. arrays s (Y_at s))) (\<lambda>Yv.
     bind_m (lib_linalg_solve lib A Yv) (\<lambda>alpha.
     bind_m (lift_m (np_add Km B_inv)) (\<lambda>A'.
     bind_m (lib_pdinv lib A') (\<lambda>K_B_inv.
     bind_m (lift_m (np_sub (tdot alpha) K_B_inv)) (\<lambda>dL_dB.
     bind_m (read_m (\<lambda>s. nrows (arrays s (phi_at s)))) (\<lambda>nr.
     bind_m (natgrad_inner_m dL_dB B_inv i [0..<nr] grad_Lm) (\<lambda>_.
       natgrad_loop_m lib rest grad_Lm))))))))))))))"

definition vb_grad_natgrad_m ::
  "('k, 'f) lib \<Rightarrow> 'k machine \<Rightarrow> (error + vec \<times> vec) \<times> 'k machine" where
  "vb_grad_natgrad_m lib =
     bind_m (read_m (\<lambda>s. arrays s (phi_at s))) (\<lambda>ph.
     bind_m (alloc (zeros_like ph)) (\<lambda>grad_Lm.
     bind_m (read_m kern_refs) (\<lambda>ks.
     bind_m (natgrad_loop_m lib (enumerate 0 ks) grad_Lm) (\<lambda>_.
     bind_m (lib_mixing_prop_bound_grad lib) (\<lambda>mg.
     bind_m (read_m (\<lambda>s. arrays s grad_Lm)) (\<lambda>G.
     bind_m (lift_m (np_add G mg)) (\<lambda>g.
     bind_m (read_m (\<lambda>s. arrays s (Hgrad_at s))) (\<lambda>hg.
     bind_m (lift_m (np_add g hg)) (\<lambda>grad_phi.
     bind_m (read_m (\<lambda>s. arrays s (phi_at s))) (\<lambda>ph'.
       lift_m (natgrad_project ph' grad_phi)))))))))))"

text \<open>
  What a call must leave alone: \<open>preserved lib s s'\<close> holds when \<open>s'\<close> has every array that
  \<open>s\<close> had allocated, the same attributes, the same kernel list, kernel objects with the
  same parameter values, and the same variance and entropy. New arrays and changed
  caches are allowed. \<open>lib_preserves\<close> is this contract for every collaborator, and
  \<open>keeps I m Q\<close> says that a computation maintains \<open>I\<close> and returns only results with \<open>Q\<close>.
\<close>

definition preserved :: "('k, 'f) lib \<Rightarrow> 'k machine \<Rightarrow> 'k machine \<Rightarrow> bool" where
  "preserved lib s s' \<longleftrightarrow>
     next_addr s \<le> next_addr s' \<and> (\<forall>a<next_addr s. arrays s' a = arrays s a) \<and>
     X_at s' = X_at s \<and> Y_at s' = Y_at s \<and> phi_at s' = phi_at s \<and> Hgrad_at s' = Hgrad_at s \<and>
     kern_refs s' = kern_refs s \<and>
     (\<forall>r. lib_params lib (objects s' r) = lib_params lib (objects s r)) \<and>
     variance_value s' = variance_value s \<and> H_value s' = H_value s"

definition lib_preserves :: "('k, 'f) lib \<Rightarrow> bool" where
  "lib_preserves lib \<longleftrightarrow>
     (\<forall>kr A s. preserved lib s (snd (lib_kern_K lib kr A s))) \<and>
     (\<forall>A s. preserved lib s (snd (lib_cho_factor lib A s))) \<and>
     (\<forall>c B s. preserved lib s (snd (lib_cho_solve lib c B s))) \<and>
     (\<forall>A B s. preserved lib s (snd (lib_linalg_solve lib A B s))) \<and>
     (\<forall>A s. preserved lib s (snd (lib_pdinv lib A s))) \<and>
     (\<forall>A s. preserved lib s (snd (lib_slogdet lib A s))) \<and>
     (\<forall>s. preserved lib s (snd (lib_mixing_prop_bound lib s))) \<and>
     (\<forall>s. preserved lib s (snd (lib_mixing_prop_bound_grad lib s)))"

definition keeps ::
  "('k machine \<Rightarrow> bool) \<Rightarrow> ('k machine \<Rightarrow> (error + 'a) \<times> 'k machine) \<Rightarrow> ('a \<Rightarrow> bool) \<Rightarrow> bool" where
  "keeps I m Q \<longleftrightarrow> (\<forall>s. I s \<longrightarrow> I (snd (m s)) \<and> (\<forall>x. fst (m s) = Inr x \<longrightarrow> Q x))"

text \<open>
  The state of the model that a reading operation has to leave as it was: the data,
  \<open>phi\<close>, \<open>Hgrad\<close>, the kernel list, the parameter values of every kernel, the variance
  and the entropy. \<open>allocated\<close> says that the arrays of the model are in the store.
\<close>

definition allocated :: "'k machine \<Rightarrow> bool" where
  "allocated s \<longleftrightarrow>
     X_at s < next_addr s \<and> Y_at s < next_addr s \<and> phi_at s < next_addr s \<and>
     Hgrad_at s < next_addr s"

definition model_unchanged :: "('k, 'f) lib \<Rightarrow> 'k machine \<Rightarrow> 'k machine \<Rightarrow> bool" where
  "model_unchanged lib s s' \<longleftrightarrow>
     arrays s' (X_at s') = arrays s (X_at s) \<and>
     arrays s' (Y_at s') = arrays s (Y_at s) \<and>
     arrays s' (phi_at s') = arrays s (phi_at s) \<and>
     arrays s' (Hgrad_at s') = arrays s (Hgrad_at s) \<and>
     kern_refs s' = kern_refs s \<and>
     (\<forall>r. lib_params lib (objects s' r) = lib_params lib (objects s r)) \<and>
     variance_value s' = variance_value s \<and> H_value s' = H_value s"

text \<open>
  The link to the functional model of the sections above: pure collaborators as state
  transformers, a store that holds the arrays of a model state, and the relation between
  a model state and the stores that hold it. \<open>natgrad_dL_dB\<close> names the statements of the
  loop body of \<^verbatim>\<open>vb_grad_natgrad\<close> before its inner loop.
\<close>

definition lib_of :: "('k, 'f) env \<Rightarrow> 'k omgp \<Rightarrow> ('k, 'f) lib" where
  "lib_of env st =
     \<lparr>lib_kern_K = (\<lambda>kr A. bind_m (read_m (\<lambda>s. objects s kr)) (\<lambda>k. lift_m (kern_K env k A))),
      lib_cho_factor = (\<lambda>A. lift_m (cho_factor env A)),
      lib_cho_solve = (\<lambda>c B. lift_m (cho_solve env c B)),
      lib_linalg_solve = (\<lambda>A B. lift_m (linalg_solve env A B)),
      lib_pdinv = (\<lambda>A. lift_m (pdinv env A)),
      lib_slogdet = (\<lambda>A. lift_m (slogdet env A)),
      lib_mixing_prop_bound = return_m (mixing_prop_bound env st),
      lib_mixing_prop_bound_grad = return_m (mixing_prop_bound_grad env st),
      lib_params = (\<lambda>k. [])\<rparr>"

definition machine_of :: "'k omgp \<Rightarrow> 'k machine" where
  "machine_of st =
     \<lparr>arrays = (\<lambda>a. if a = 0 then X st else if a = 1 then Y st
                    else if a = 2 then phi st else Hgrad st),
      next_addr = 4, X_at = 0, Y_at = 1, phi_at = 2, Hgrad_at = 3,
      kern_refs = kern st, objects = heap st, variance_value = variance st, H_value = H st\<rparr>"

definition represents :: "'k omgp \<Rightarrow> 'k machine \<Rightarrow> bool" where
  "represents st s \<longleftrightarrow>
     arrays s (X_at s) = X st \<and> arrays s (Y_at s) = Y st \<and> arrays s (phi_at s) = phi st \<and>
     arrays s (Hgrad_at s) = Hgrad st \<and> kern_refs s = kern st \<and> objects s = heap st \<and>
     variance_value s = variance st \<and> H_value s = H st \<and> allocated s"

definition working :: "'k omgp \<Rightarrow> addr \<Rightarrow> 'k machine \<Rightarrow> bool" where
  "working st g s \<longleftrightarrow>
     represents st s \<and> g < next_addr s \<and> g \<noteq> X_at s \<and> g \<noteq> Y_at s \<and> g \<noteq> phi_at s \<and>
     g \<noteq> Hgrad_at s"

definition natgrad_dL_dB :: "('k, 'f) env \<Rightarrow> 'k omgp \<Rightarrow> nat \<Rightarrow> ref \<Rightarrow> error + mat \<times> mat" where
  "natgrad_dL_dB env st i kr =
     ebind (kern_K env (heap st kr) (X st)) (\<lambda>Km.
     ebind (natgrad_B_inv st i) (\<lambda>B_inv.
     ebind (np_add Km B_inv) (\<lambda>A.
     ebind (linalg_solve env A (Y st)) (\<lambda>alpha.
     ebind (np_add Km B_inv) (\<lambda>A'.
     ebind (pdinv env A') (\<lambda>K_B_inv.
     ebind (np_sub (tdot alpha) K_B_inv) (\<lambda>dL_dB. Inr (B_inv, dL_dB))))))))"

section \<open>Variants in the words of the specification\<close>

text \<open>
  The specification allows the entries of the raw gradient to be computed in closed form,
  \<open>1/2 (dL/dB)[n,n] (- variance / (phi[n,i]\<^sup>2 + 1e-6))\<close>, instead of through the trace of a
  product with a one-hot matrix.
\<close>

fun natgrad_inner_closed :: "'k omgp \<Rightarrow> mat \<Rightarrow> nat \<Rightarrow> nat list \<Rightarrow> mat \<Rightarrow> error + mat" where
  "natgrad_inner_closed st dL_dB i [] grad_Lm = Inr grad_Lm"
| "natgrad_inner_closed st dL_dB i (n # ns) grad_Lm =
     ebind (getitem2 (phi st) n i) (\<lambda>p.
     ebind (setitem2 grad_Lm n i
              (1 / 2 * (dL_dB ! n ! n) * (- variance st / (p\<^sup>2 + 1 / 1000000)))) (\<lambda>grad_Lm'.
       natgrad_inner_closed st dL_dB i ns grad_Lm'))"

text \<open>
  The specification compares the assignment of the running sum inside the loop with one
  assignment of the sum after the loop: the second loop without a write, and an
  \<^verbatim>\<open>update_kern_grads\<close> that writes once at the end.
\<close>

fun ukg_variance_sum ::
  "('k, 'f) env \<Rightarrow> 'k omgp \<Rightarrow> (nat \<times> ref) list \<Rightarrow> real \<Rightarrow> error + real" where
  "ukg_variance_sum env st [] grad_Lm_variance = Inr grad_Lm_variance"
| "ukg_variance_sum env st ((i, kr) # rest) grad_Lm_variance =
     ebind (ukg_variance_term env st i kr) (\<lambda>t.
       ukg_variance_sum env st rest (grad_Lm_variance + t))"

definition update_kern_grads_assign_after ::
  "('k, 'f) env \<Rightarrow> 'k omgp \<Rightarrow> (error + unit) \<times> 'k omgp" where
  "update_kern_grads_assign_after env st =
     (case ukg_kern_loop env (enumerate 0 (kern st)) st of
        (Inl e, st1) \<Rightarrow> (Inl e, st1)
      | (Inr _, st1) \<Rightarrow>
          (case ukg_variance_sum env st1 (enumerate 0 (kern st1)) 0 of
             Inl e \<Rightarrow> (Inl e, st1)
           | Inr g \<Rightarrow> (Inr (), st1\<lparr>variance_gradient := g\<rparr>)))"

text \<open>
  The term of component \<open>i\<close> in the gradient of the variance as the specification writes
  it, \<open>1/2 trace (dL/dB\<^sub>i diag (1 / (phi[:, i] + 1e-6)))\<close>.
\<close>

definition variance_gradient_term :: "'k omgp \<Rightarrow> mat \<Rightarrow> nat \<Rightarrow> real" where
  "variance_gradient_term st dL_dB i =
     1 / 2 * trace (mat_mul dL_dB (diag (map (\<lambda>row. 1 / (row ! i + 1 / 1000000)) (phi st))))"

text \<open>
  The terms of the bound as the specification writes them: the system matrix
  \<open>K\<^sub>i + B_inv\<^sub>i\<close> with \<open>B_inv\<^sub>i = diag (variance / (phi[:, i] + 1e-6))\<close>, and for a solution
  \<open>alpha\<close> and a log-determinant \<open>logdet\<close> the sum of the data fit \<open>- 1/2 trace (Y\<^sup>T alpha)\<close>,
  the penalty \<open>- 1/2 logdet\<close> and the constant \<open>- 1/2 \<Sum>\<^sub>n phi[n,i] log (2 pi variance)\<close>.
  In \<^verbatim>\<open>predict\<close> the specification has \<open>B_inv\<^sub>i = diag (variance / phi[:, i])\<close>.
\<close>

definition mat_add :: "mat \<Rightarrow> mat \<Rightarrow> mat" where
  "mat_add A B = map2 (map2 (\<lambda>a b. a + b)) A B"

definition mat_sub :: "mat \<Rightarrow> mat \<Rightarrow> mat" where
  "mat_sub A B = map2 (map2 (\<lambda>a b. a - b)) A B"

definition B_inv_floored :: "'k omgp \<Rightarrow> nat \<Rightarrow> mat" where
  "B_inv_floored st i = diag (map (\<lambda>row. variance st / (row ! i + 1 / 1000000)) (phi st))"

definition B_inv_unfloored :: "'k omgp \<Rightarrow> nat \<Rightarrow> mat" where
  "B_inv_unfloored st i = diag (map (\<lambda>row. variance st / row ! i) (phi st))"

definition bound_component :: "'k omgp \<Rightarrow> mat \<Rightarrow> real \<Rightarrow> nat \<Rightarrow> real" where
  "bound_component st alpha logdet i =
     - (1 / 2) * trace (mat_mul (np_T (Y st)) alpha) - 1 / 2 * logdet
       - 1 / 2 * (\<Sum>n<N st. phi st ! n ! i * ln (2 * pi * variance st))"

section \<open>Example collaborators\<close>

text \<open>
  A concrete environment for the worked examples: a bias kernel (a constant covariance,
  the pair of its variance and its gradient), and dense solvers for systems of one and
  two equations by Cramer's rule.
\<close>

type_synonym bias = "real \<times> real"

definition bias_K :: "bias \<Rightarrow> mat \<Rightarrow> error + mat" where
  "bias_K k Xs = Inr (replicate (length Xs) (replicate (length Xs) (fst k)))"

definition bias_K2 :: "bias \<Rightarrow> mat \<Rightarrow> mat \<Rightarrow> error + mat" where
  "bias_K2 k Xs Xs2 = Inr (replicate (length Xs) (replicate (length Xs2) (fst k)))"

definition bias_update_gradients_full :: "bias \<Rightarrow> mat \<Rightarrow> mat \<Rightarrow> error + bias" where
  "bias_update_gradients_full k dL_dK Xs = Inr (fst k, sum_list (map sum_list dL_dK))"

datatype chol = Chol mat

definition small_solve :: "mat \<Rightarrow> mat \<Rightarrow> error + mat" where
  "small_solve A B =
     (case A of
        [[a]] \<Rightarrow>
          (case B of
             [u] \<Rightarrow> if a = 0 then Inl LinAlgError else Inr [map (\<lambda>y. y / a) u]
           | _ \<Rightarrow> Inl ValueError)
      | [[a, b], [c, d]] \<Rightarrow>
          (case B of
             [u, v] \<Rightarrow>
               if a * d - b * c = 0 then Inl LinAlgError
               else Inr [map2 (\<lambda>y z. (d * y - b * z) / (a * d - b * c)) u v,
                         map2 (\<lambda>y z. (a * z - c * y) / (a * d - b * c)) u v]
           | _ \<Rightarrow> Inl ValueError)
      | _ \<Rightarrow> Inl ValueError)"

definition small_cho_factor :: "mat \<Rightarrow> error + chol" where
  "small_cho_factor A =
     (case A of
        [[a]] \<Rightarrow> if 0 < a then Inr (Chol A) else Inl LinAlgError
      | [[a, b], [c, d]] \<Rightarrow>
          if 0 < a \<and> 0 < a * d - b * c then Inr (Chol A) else Inl LinAlgError
      | _ \<Rightarrow> Inl ValueError)"

definition small_cho_solve :: "chol \<Rightarrow> mat \<Rightarrow> error + mat" where
  "small_cho_solve c B = (case c of Chol A \<Rightarrow> small_solve A B)"

definition small_pdinv :: "mat \<Rightarrow> error + mat" where
  "small_pdinv A =
     (case A of
        [[a]] \<Rightarrow> if 0 < a then Inr [[1 / a]] else Inl LinAlgError
      | [[a, b], [c, d]] \<Rightarrow>
          if 0 < a \<and> 0 < a * d - b * c
          then Inr [[d / (a * d - b * c), - b / (a * d - b * c)],
                    [- c / (a * d - b * c), a / (a * d - b * c)]]
          else Inl LinAlgError
      | _ \<Rightarrow> Inl ValueError)"

definition small_slogdet :: "mat \<Rightarrow> error + real \<times> real" where
  "small_slogdet A =
     (case A of
        [[a]] \<Rightarrow> Inr (sgn a, ln \<bar>a\<bar>)
      | [[a, b], [c, d]] \<Rightarrow> Inr (sgn (a * d - b * c), ln \<bar>a * d - b * c\<bar>)
      | _ \<Rightarrow> Inl LinAlgError)"

definition ex_env :: "(bias, chol) env" where
  "ex_env = \<lparr>kern_K = bias_K, kern_K2 = bias_K2, kern_copy = (\<lambda>k. k),
            update_gradients_full = bias_update_gradients_full,
            cho_factor = small_cho_factor, cho_solve = small_cho_solve,
            linalg_solve = small_solve, pdinv = small_pdinv, slogdet = small_slogdet,
            mixing_prop_bound = (\<lambda>st. 0),
            mixing_prop_bound_grad = (\<lambda>st. zeros_like (phi st))\<rparr>"

definition ex_model :: "bias omgp" where
  "ex_model = \<lparr>X = [[0]], Y = [[1]], D = 1, N = 1, K = 1, phi = [[1]], H = 0, Hgrad = [[0]],
              kern = [0], variance = 1, variance_gradient = 0,
              parameters = [PVariance, PKern 0], heap = (\<lambda>r. (1, 0)), next_ref = 1\<rparr>"

text \<open>A model of one data point with two components and kernels of variance 1 and 2.\<close>

definition ex_model2 :: "bias omgp" where
  "ex_model2 = \<lparr>X = [[0]], Y = [[1]], D = 1, N = 1, K = 2, phi = [[1 / 4, 3 / 4]], H = 0,
               Hgrad = [[1, 2]], kern = [0, 1], variance = 1, variance_gradient = 0,
               parameters = [PVariance, PKern 0, PKern 1],
               heap = (\<lambda>r. if r = 0 then (1, 0) else (2, 0)), next_ref = 2\<rparr>"




text \<open>
  Collaborators with effects, for the model in a store: a kernel that keeps its last
  covariance matrix in a cache inside the kernel object, and a solver that allocates its
  result. The store holds the arrays of \<open>ex_model2\<close>.
\<close>

type_synonym cached = "bias \<times> mat option"

definition cached_K :: "ref \<Rightarrow> mat \<Rightarrow> cached machine \<Rightarrow> (error + mat) \<times> cached machine" where
  "cached_K kr Xs = (\<lambda>s. case bias_K (fst (objects s kr)) Xs of
       Inl e \<Rightarrow> (Inl e, s)
     | Inr Km \<Rightarrow> (Inr Km, s\<lparr>objects := (objects s)(kr := (fst (objects s kr), Some Km))\<rparr>))"

definition fresh_solve :: "mat \<Rightarrow> mat \<Rightarrow> cached machine \<Rightarrow> (error + mat) \<times> cached machine" where
  "fresh_solve A B =
     bind_m (lift_m (small_solve A B)) (\<lambda>R.
     bind_m (alloc R) (\<lambda>a. read_m (\<lambda>s. arrays s a)))"

definition ex_lib :: "(cached, chol) lib" where
  "ex_lib = \<lparr>lib_kern_K = cached_K,
            lib_cho_factor = (\<lambda>A. lift_m (small_cho_factor A)),
            lib_cho_solve = (\<lambda>c B. lift_m (small_cho_solve c B)),
            lib_linalg_solve = fresh_solve,
            lib_pdinv = (\<lambda>A. lift_m (small_pdinv A)),
            lib_slogdet = (\<lambda>A. lift_m (small_slogdet A)),
            lib_mixing_prop_bound = return_m 0,
            lib_mixing_prop_bound_grad = read_m (\<lambda>s. zeros_like (arrays s (phi_at s))),
            lib_params = (\<lambda>k. [fst (fst k)])\<rparr>"

definition ex_machine2 :: "cached machine" where
  "ex_machine2 = \<lparr>arrays = (\<lambda>a. if a = 0 then [[0]] else if a = 1 then [[1]]
                              else if a = 2 then [[1 / 4, 3 / 4]] else [[1, 2]]),
                 next_addr = 4, X_at = 0, Y_at = 1, phi_at = 2, Hgrad_at = 3,
                 kern_refs = [0, 1],
                 objects = (\<lambda>r. if r = 0 then ((1, 0), None) else ((2, 0), None)),
                 variance_value = 1, H_value = 0\<rparr>"

section \<open>Basic facts\<close>

lemma ebind_simps [simp]: "ebind (Inl e) f = Inl e" "ebind (Inr x) f = f x"
  by (simp_all add: ebind_def)

lemma unlink_all_ok:
  "distinct rs \<Longrightarrow> distinct (parameters st) \<Longrightarrow> \<forall>r\<in>set rs. PKern r \<in> set (parameters st) \<Longrightarrow>
   \<exists>ps. unlink_all rs st = (Inr (), st\<lparr>parameters := ps\<rparr>) \<and> distinct ps \<and>
        set ps = set (parameters st) - PKern ` set rs"
proof (induction rs arbitrary: st)
  case Nil
  show ?case
    by (rule exI [of _ "parameters st"]) (simp add: Nil)
next
  case (Cons r rs)
  let ?st1 = "st\<lparr>parameters := remove1 (PKern r) (parameters st)\<rparr>"
  have u: "unlink_parameter (PKern r) st = (Inr (), ?st1)"
    using Cons.prems by (simp add: unlink_parameter_def)
  have d0: "distinct rs" using Cons.prems(1) by simp
  have d1: "distinct (parameters ?st1)" using Cons.prems(2) by simp
  have m1: "\<forall>q\<in>set rs. PKern q \<in> set (parameters ?st1)"
    using Cons.prems by auto
  from Cons.IH [OF d0 d1 m1]
  obtain ps where ps: "unlink_all rs ?st1 = (Inr (), ?st1\<lparr>parameters := ps\<rparr>)" "distinct ps"
    "set ps = set (parameters ?st1) - PKern ` set rs" by blast
  have a: "unlink_all (r # rs) st = (Inr (), st\<lparr>parameters := ps\<rparr>)"
    using u ps(1) by simp
  have b: "set ps = set (parameters st) - PKern ` set (r # rs)"
    using ps(3) Cons.prems(2) by auto
  show ?case
    by (rule exI [of _ ps]) (simp only: a b ps(2) simp_thms)
qed

lemma getitem_last: "xs \<noteq> [] \<Longrightarrow> getitem xs (- 1) = Inr (last xs)"
proof -
  assume ne: "xs \<noteq> []"
  then obtain y ys where xs: "xs = y # ys" by (cases xs) auto
  have n: "nat (int (length xs) + - 1) = length ys" by (simp add: xs)
  have "getitem xs (- 1) = Inr (xs ! nat (int (length xs) + - 1))"
    by (simp add: getitem_def xs)
  also have "\<dots> = Inr (xs ! length ys)" by (simp only: n)
  also have "\<dots> = Inr (last xs)"
  proof -
    have "length xs - 1 = length ys" by (simp add: xs)
    then show ?thesis using last_conv_nth [OF ne] by simp
  qed
  finally show ?thesis .
qed

lemma grow_ok:
  assumes lt: "length (kern st) < K st" and ne: "kern st \<noteq> []"
    and fresh: "\<forall>r. PKern r \<in> set (parameters st) \<longrightarrow> r < next_ref st"
  shows "grow env st =
    (Inr (), st\<lparr>kern := kern st @ [next_ref st],
                heap := (heap st)(next_ref st := kern_copy env (heap st (last (kern st)))),
                next_ref := Suc (next_ref st),
                parameters := parameters st @ [PKern (next_ref st)]\<rparr>)"
proof -
  have nf: "PKern (next_ref st) \<notin> set (parameters st)"
    using fresh by auto
  have g2: "getitem (kern st @ [next_ref st]) (- 1) = Inr (next_ref st)"
    using getitem_last [of "kern st @ [next_ref st]"] by simp
  show ?thesis
    using lt nf by (simp add: grow_def append_copy_def getitem_last [OF ne] g2 link_parameter_def)
qed

lemma shrink_ok:
  assumes d: "distinct (kern st)" and dp: "distinct (parameters st)"
    and linked: "\<forall>r\<in>set (kern st). PKern r \<in> set (parameters st)"
    and ge: "K st \<le> length (kern st)"
  shows "fst (shrink st) = Inr () \<and> kern (snd (shrink st)) = take (K st) (kern st) \<and>
    set (parameters (snd (shrink st))) = set (parameters st) - PKern ` set (drop (K st) (kern st)) \<and>
    heap (snd (shrink st)) = heap st"
proof (cases "K st < length (kern st)")
  case False
  then have "K st = length (kern st)" using ge by simp
  then show ?thesis by (simp add: shrink_def)
next
  case True
  have d': "distinct (drop (K st) (kern st))" using d by simp
  have l': "\<forall>r\<in>set (drop (K st) (kern st)). PKern r \<in> set (parameters st)"
    using linked by (meson in_set_dropD)
  from unlink_all_ok [OF d' dp l']
  obtain ps where ps: "unlink_all (drop (K st) (kern st)) st = (Inr (), st\<lparr>parameters := ps\<rparr>)"
    "set ps = set (parameters st) - PKern ` set (drop (K st) (kern st))" by blast
  show ?thesis using True ps by (simp add: shrink_def)
qed

section \<open>Facts about arrays\<close>

lemma is_mat_nth: "is_mat r c A \<Longrightarrow> i < r \<Longrightarrow> length (A ! i) = c"
  by (simp add: is_mat_def list_all_length)

lemma is_mat_length: "is_mat r c A \<Longrightarrow> length A = r"
  by (simp add: is_mat_def)

lemma is_mat_nrows: "is_mat r c A \<Longrightarrow> nrows A = r"
  by (simp add: is_mat_def nrows_def)

lemma is_mat_ncols: "is_mat r c A \<Longrightarrow> 0 < r \<Longrightarrow> ncols A = c"
  by (cases A) (simp_all add: is_mat_def ncols_def)

lemma is_matI: "length A = r \<Longrightarrow> (\<And>i. i < r \<Longrightarrow> length (A ! i) = c) \<Longrightarrow> is_mat r c A"
  by (simp add: is_mat_def list_all_length)

lemma stretch_same: "length xs = n \<Longrightarrow> stretch n xs = xs"
  by (simp add: stretch_def)

lemma stretch_one: "length xs = 1 \<Longrightarrow> stretch n xs = replicate n (hd xs)"
  by (cases xs) (auto simp: stretch_def)

lemma bdim_same: "bdim a a = Some a"
  by (simp add: bdim_def)

lemma bdim_one: "bdim a (Suc 0) = Some a"
  by (simp add: bdim_def)

lemma broadcast2_same:
  assumes A: "is_mat r c A" and B: "is_mat r c B" and r: "0 < r"
  shows "\<exists>C. broadcast2 f A B = Inr C \<and> is_mat r c C \<and>
              (\<forall>i<r. \<forall>j<c. C ! i ! j = f (A ! i ! j) (B ! i ! j))"
proof -
  let ?C = "map2 (\<lambda>a b. map2 f (stretch c a) (stretch c b)) A B"
  have lA: "length A = r" and lB: "length B = r"
    using A B by (simp_all add: is_mat_length)
  have e: "broadcast2 f A B = Inr ?C"
    by (simp add: broadcast2_def is_mat_nrows [OF A] is_mat_nrows [OF B]
        is_mat_ncols [OF A r] is_mat_ncols [OF B r] bdim_same stretch_same lA lB)
  have row: "?C ! i = map2 f (A ! i) (B ! i)" if "i < r" for i
    using that lA lB by (simp add: stretch_same is_mat_nth [OF A] is_mat_nth [OF B])
  have m: "is_mat r c ?C"
  proof (rule is_matI)
    show "length ?C = r" using lA lB by simp
    fix i assume i: "i < r"
    show "length (?C ! i) = c"
      by (simp only: row [OF i]) (simp add: is_mat_nth [OF A i] is_mat_nth [OF B i])
  qed
  have el: "?C ! i ! j = f (A ! i ! j) (B ! i ! j)" if "i < r" "j < c" for i j
    by (simp only: row [OF that(1)])
       (simp add: is_mat_nth [OF A that(1)] is_mat_nth [OF B that(1)] that(2))
  show ?thesis
    using e m el by blast
qed

lemma broadcast2_col:
  assumes A: "is_mat r c A" and B: "is_mat r 1 B" and r: "0 < r"
  shows "\<exists>C. broadcast2 f A B = Inr C \<and> is_mat r c C \<and>
              (\<forall>i<r. \<forall>j<c. C ! i ! j = f (A ! i ! j) (B ! i ! 0))"
proof -
  let ?C = "map2 (\<lambda>a b. map2 f (stretch c a) (stretch c b)) A B"
  have lA: "length A = r" and lB: "length B = r"
    using A B by (simp_all add: is_mat_length)
  have e: "broadcast2 f A B = Inr ?C"
    by (simp add: broadcast2_def is_mat_nrows [OF A] is_mat_nrows [OF B]
        is_mat_ncols [OF A r] is_mat_ncols [OF B r] bdim_same bdim_one stretch_same lA lB)
  have row: "?C ! i = map2 f (A ! i) (replicate c (B ! i ! 0))" if "i < r" for i
  proof -
    have l1: "length (B ! i) = 1" using is_mat_nth [OF B that] .
    then have "B ! i \<noteq> []" by auto
    then have "hd (B ! i) = B ! i ! 0" by (rule hd_conv_nth)
    then have "stretch c (B ! i) = replicate c (B ! i ! 0)"
      using stretch_one [OF l1, of c] by simp
    then show ?thesis
      using that lA lB by (simp add: stretch_same is_mat_nth [OF A])
  qed
  have m: "is_mat r c ?C"
  proof (rule is_matI)
    show "length ?C = r" using lA lB by simp
    fix i assume i: "i < r"
    show "length (?C ! i) = c"
      by (simp only: row [OF i]) (simp add: is_mat_nth [OF A i])
  qed
  have el: "?C ! i ! j = f (A ! i ! j) (B ! i ! 0)" if "i < r" "j < c" for i j
    by (simp only: row [OF that(1)]) (simp add: is_mat_nth [OF A that(1)] that(2))
  show ?thesis
    using e m el by blast
qed

lemma ebind_eq_Inr: "ebind m f = Inr y \<longleftrightarrow> (\<exists>x. m = Inr x \<and> f x = Inr y)"
  by (cases m) (simp_all add: ebind_def)

lemma concat_nth_mat: "is_mat r c A \<Longrightarrow> i < r \<Longrightarrow> j < c \<Longrightarrow> concat A ! (i * c + j) = A ! i ! j"
proof (induction A arbitrary: r i)
  case Nil
  then show ?case by (simp add: is_mat_def)
next
  case (Cons a A)
  have la: "length a = c" using Cons.prems(1) by (simp add: is_mat_def)
  show ?case
  proof (cases i)
    case 0
    then show ?thesis using la Cons.prems(3) by (simp add: nth_append)
  next
    case (Suc i')
    have m: "is_mat (r - 1) c A" using Cons.prems(1) by (auto simp: is_mat_def)
    have i': "i' < r - 1" using Suc Cons.prems(2) by simp
    have "concat (a # A) ! (i * c + j) = concat A ! (i' * c + j)"
      using la Suc by (simp add: nth_append)
    then show ?thesis using Cons.IH [OF m i' Cons.prems(3)] Suc by simp
  qed
qed

lemma concat_length_mat: "is_mat r c A \<Longrightarrow> length (concat A) = r * c"
  by (induction A arbitrary: r) (auto simp: is_mat_def)

lemma sum_list_nth: "length xs = n \<Longrightarrow> sum_list xs = (\<Sum>j<n. xs ! j)"
  by (simp add: sum_list_sum_nth atLeast0LessThan)

lemma row_sums_col_mat: "is_mat r c A \<Longrightarrow> is_mat r 1 (row_sums_col A)"
  by (simp add: is_mat_def row_sums_col_def list_all_length)

lemma row_sums_col_nth: "i < length A \<Longrightarrow> row_sums_col A ! i ! 0 = sum_list (A ! i)"
  by (simp add: row_sums_col_def)

lemma natgrad_project_orth:
  assumes ph: "is_mat r c ph" and g: "is_mat r c g" and r: "0 < r"
    and rows: "\<forall>i<r. sum_list (ph ! i) = 1"
  shows "\<exists>grad ng. natgrad_project ph g = Inr (grad, ng) \<and> length ng = r * c \<and>
           (\<forall>i<r. (\<Sum>j<c. ph ! i ! j * ng ! (i * c + j)) = 0)"
proof -
  from broadcast2_same [OF ph g r, of "\<lambda>a b. a * b"]
  obtain pg where pg: "np_mul ph g = Inr pg" "is_mat r c pg"
    "\<forall>i<r. \<forall>j<c. pg ! i ! j = ph ! i ! j * g ! i ! j"
    unfolding np_mul_def by blast
  from broadcast2_col [OF g row_sums_col_mat [OF pg(2)] r, of "\<lambda>a b. a - b"]
  obtain ng where ng: "np_sub g (row_sums_col pg) = Inr ng" "is_mat r c ng"
    "\<forall>i<r. \<forall>j<c. ng ! i ! j = g ! i ! j - row_sums_col pg ! i ! 0"
    unfolding np_sub_def by blast
  from broadcast2_same [OF ng(2) ph r, of "\<lambda>a b. a * b"]
  obtain gr where gr: "np_mul ng ph = Inr gr"
    unfolding np_mul_def by blast
  have res: "natgrad_project ph g = Inr (flatten gr, flatten ng)"
    by (simp add: natgrad_project_def pg(1) ng(1) gr)
  have len: "length (flatten ng) = r * c"
    by (simp add: flatten_def concat_length_mat [OF ng(2)])
  have orth: "(\<Sum>j<c. ph ! i ! j * flatten ng ! (i * c + j)) = 0" if i: "i < r" for i
  proof -
    let ?S = "sum_list (pg ! i)"
    have lpg: "length (pg ! i) = c" by (rule is_mat_nth [OF pg(2) i])
    have lph: "length (ph ! i) = c" by (rule is_mat_nth [OF ph i])
    have S: "?S = (\<Sum>j<c. ph ! i ! j * g ! i ! j)"
      using pg(3) i by (simp add: sum_list_nth [OF lpg])
    have one: "(\<Sum>j<c. ph ! i ! j) = 1"
      using rows i sum_list_nth [OF lph] by simp
    have rs: "row_sums_col pg ! i ! 0 = ?S"
      using i is_mat_length [OF pg(2)] by (simp add: row_sums_col_nth)
    have "(\<Sum>j<c. ph ! i ! j * flatten ng ! (i * c + j)) = (\<Sum>j<c. ph ! i ! j * (g ! i ! j - ?S))"
      using ng(3) i rs by (simp add: flatten_def concat_nth_mat [OF ng(2) i])
    also have "\<dots> = (\<Sum>j<c. ph ! i ! j * g ! i ! j) - (\<Sum>j<c. ph ! i ! j) * ?S"
      by (simp add: right_diff_distrib sum_subtractf sum_distrib_right)
    also have "\<dots> = 0" using S one by simp
    finally show ?thesis .
  qed
  show ?thesis using res len orth by blast
qed

lemma setitem2_mat: "setitem2 A n m v = Inr A' \<Longrightarrow> is_mat r c A \<Longrightarrow> is_mat r c A'"
  by (auto simp: setitem2_def is_mat_def nrows_def list_all_length nth_list_update split: if_splits)

lemma natgrad_inner_mat:
  "natgrad_inner st dL_dB B_inv i ns G = Inr G' \<Longrightarrow> is_mat r c G \<Longrightarrow> is_mat r c G'"
proof (induction ns arbitrary: G)
  case Nil
  then show ?case by simp
next
  case (Cons n ns)
  from Cons.prems(1) obtain M G1 where
    s: "setitem2 G n i (1 / 2 * trace M) = Inr G1"
    and rest: "natgrad_inner st dL_dB B_inv i ns G1 = Inr G'"
    by (auto simp: ebind_eq_Inr)
  show ?case
    by (rule Cons.IH [OF rest setitem2_mat [OF s Cons.prems(2)]])
qed

lemma natgrad_loop_mat:
  "natgrad_loop env st ks G = Inr G' \<Longrightarrow> is_mat r c G \<Longrightarrow> is_mat r c G'"
proof (induction ks arbitrary: G)
  case Nil
  then show ?case by simp
next
  case (Cons ik ks)
  obtain i kr where ik: "ik = (i, kr)" by (cases ik)
  from Cons.prems(1) obtain dL_dB B_inv G1 where
    inner: "natgrad_inner st dL_dB B_inv i [0..<nrows (phi st)] G = Inr G1"
    and rest: "natgrad_loop env st ks G1 = Inr G'"
    unfolding ik by (auto simp: ebind_eq_Inr)
  show ?case
    by (rule Cons.IH [OF rest natgrad_inner_mat [OF inner Cons.prems(2)]])
qed

lemma zeros_like_mat: "is_mat r c A \<Longrightarrow> is_mat r c (zeros_like A)"
  by (simp add: is_mat_def zeros_like_def list_all_length)

lemma dotp_sum: "length u = n \<Longrightarrow> length v = n \<Longrightarrow> dotp u v = (\<Sum>k<n. u ! k * v ! k)"
  by (simp add: dotp_def sum_list_nth [of _ n])

lemma np_T_nth: "j < ncols B \<Longrightarrow> np_T B ! j = map (\<lambda>row. row ! j) B"
  by (simp add: np_T_def)

lemma np_dot_nth:
  assumes A: "is_mat a b A" and B: "is_mat b c B" and a: "0 < a" and b: "0 < b"
  shows "\<exists>M. np_dot A B = Inr M \<and> is_mat a c M \<and>
              (\<forall>i<a. \<forall>j<c. M ! i ! j = (\<Sum>k<b. A ! i ! k * B ! k ! j))"
proof -
  let ?M = "map (\<lambda>r. map (dotp r) (np_T B)) A"
  have lA: "length A = a" and lB: "length B = b"
    using A B by (simp_all add: is_mat_length)
  have cB: "ncols B = c" by (rule is_mat_ncols [OF B b])
  have e: "np_dot A B = Inr ?M"
    by (simp add: np_dot_def mat_mul_def is_mat_ncols [OF A a] is_mat_nrows [OF B])
  have lT: "length (np_T B) = c" by (simp add: np_T_def cB)
  have m: "is_mat a c ?M"
    by (rule is_matI) (simp_all add: lA lT)
  have el: "?M ! i ! j = (\<Sum>k<b. A ! i ! k * B ! k ! j)" if i: "i < a" and j: "j < c" for i j
  proof -
    have "?M ! i ! j = dotp (A ! i) (map (\<lambda>row. row ! j) B)"
      using i j lA lT cB by (simp add: np_T_nth)
    also have "\<dots> = (\<Sum>k<b. A ! i ! k * map (\<lambda>row. row ! j) B ! k)"
      by (rule dotp_sum) (simp_all add: is_mat_nth [OF A i] lB)
    also have "\<dots> = (\<Sum>k<b. A ! i ! k * B ! k ! j)"
      using lB by simp
    finally show ?thesis .
  qed
  show ?thesis using e m el by blast
qed

lemma trace_sum: "is_mat m m M \<Longrightarrow> 0 < m \<Longrightarrow> trace M = (\<Sum>j<m. M ! j ! j)"
  by (simp add: trace_def is_mat_nrows is_mat_ncols sum_list_sum_nth atLeast0LessThan)

lemma onehot_trace:
  assumes A: "is_mat m m A" and B: "is_mat m m B" and n: "n < m"
  shows "\<exists>G M. setitem2 (zeros_like B) n n v = Inr G \<and> np_dot A G = Inr M \<and>
               trace M = A ! n ! n * v"
proof -
  have m: "0 < m" using n by simp
  let ?Z = "zeros_like B"
  let ?G = "?Z[n := (?Z ! n)[n := v]]"
  have Z: "is_mat m m ?Z" by (rule zeros_like_mat [OF B])
  have s: "setitem2 ?Z n n v = Inr ?G"
    using n by (simp add: setitem2_def is_mat_nrows [OF Z] is_mat_ncols [OF Z m])
  have G: "is_mat m m ?G" by (rule setitem2_mat [OF s Z])
  have lB: "length B = m" by (rule is_mat_length [OF B])
  have Zel: "?Z ! k ! j = 0" if "k < m" "j < m" for k j
    using that lB is_mat_nth [OF B that(1)] by (simp add: zeros_like_def)
  have lZ: "length ?Z = m" by (rule is_mat_length [OF Z])
  have Gel: "?G ! k ! j = (if k = n \<and> j = n then v else 0)" if k: "k < m" and j: "j < m" for k j
  proof (cases "k = n")
    case True
    have "?G ! k = (?Z ! n)[n := v]" using True n lZ by simp
    then show ?thesis
      using True j n Zel [OF n j] is_mat_nth [OF Z n] by (simp add: nth_list_update)
  next
    case False
    then have "?G ! k = ?Z ! k" by simp
    then show ?thesis using False Zel [OF k j] by simp
  qed
  from np_dot_nth [OF A G m m]
  obtain M where M: "np_dot A ?G = Inr M" "is_mat m m M"
    "\<forall>i<m. \<forall>j<m. M ! i ! j = (\<Sum>k<m. A ! i ! k * ?G ! k ! j)" by blast
  have d: "M ! j ! j = (if j = n then A ! n ! n * v else 0)" if j: "j < m" for j
  proof -
    have "M ! j ! j = (\<Sum>k<m. A ! j ! k * ?G ! k ! j)" using M(3) j by simp
    also have "\<dots> = (\<Sum>k<m. if k = n then A ! j ! n * (if j = n then v else 0) else 0)"
      by (rule sum.cong) (auto simp: Gel j)
    also have "\<dots> = A ! j ! n * (if j = n then v else 0)"
      using n by simp
    finally show ?thesis by simp
  qed
  have "trace M = (\<Sum>j<m. M ! j ! j)" by (rule trace_sum [OF M(2) m])
  also have "\<dots> = (\<Sum>j<m. if j = n then A ! n ! n * v else 0)"
    by (rule sum.cong) (auto simp: d)
  also have "\<dots> = A ! n ! n * v" using n by simp
  finally have t: "trace M = A ! n ! n * v" .
  show ?thesis using s M(1) t by blast
qed

lemmas array_defs = column_def ncols_def nrows_def diag_def np_add_def np_sub_def np_mul_def
  broadcast2_def bdim_def stretch_def np_T_def dotp_def mat_mul_def np_dot_def trace_def tdot_def
  zeros_like_def setitem2_def getitem2_def getitem_def row_sums_col_def flatten_def
  smul_def sadd_def is_mat_def

lemmas ex_defs = ex_env_def ex_model_def bias_K_def bias_K2_def bias_update_gradients_full_def
  small_solve_def small_cho_factor_def small_cho_solve_def small_pdinv_def small_slogdet_def

section \<open>Reconciling the kernel list\<close>

text \<open>
  Claim C3 says that one call of \<^verbatim>\<open>do_computations\<close> leaves exactly \<open>K\<close> kernels for every
  list length and every \<open>K\<close>. The growing branch is an \<^verbatim>\<open>if\<close> that appends one copy: with
  one kernel and \<open>K = 3\<close> the call ends with two kernels.
\<close>

theorem do_computations_single_append:
  "fst (do_computations ex_env (ex_model\<lparr>K := 3\<rparr>)) = Inr () \<and>
   length (kern (ex_model\<lparr>K := 3\<rparr>)) = 1 \<and>
   K (snd (do_computations ex_env (ex_model\<lparr>K := 3\<rparr>))) = 3 \<and>
   length (kern (snd (do_computations ex_env (ex_model\<lparr>K := 3\<rparr>)))) = 2"
  by (simp add: do_computations_def grow_def append_copy_def getitem_def link_parameter_def
      shrink_def ex_model_def ex_env_def)

text \<open>
  Claim C3, as the code has it. In a model whose kernels are distinct linked parameters,
  one call of \<^verbatim>\<open>do_computations\<close> succeeds. With fewer than \<open>K\<close> kernels (and at least one) it
  appends one copy of the last kernel, a new object, and links it as the last trainable
  parameter: the list has one entry more, which is \<open>K\<close> entries when one was missing. With
  \<open>K\<close> kernels or more it keeps the first \<open>K\<close> and unlinks the others: exactly \<open>K\<close> entries.
\<close>

theorem do_computations_reconciles:
  assumes d: "distinct (kern st)" and dp: "distinct (parameters st)"
    and linked: "\<forall>r\<in>set (kern st). PKern r \<in> set (parameters st)"
    and fresh: "\<forall>r. PKern r \<in> set (parameters st) \<longrightarrow> r < next_ref st"
    and ne: "length (kern st) < K st \<longrightarrow> kern st \<noteq> []"
  shows "fst (do_computations env st) = Inr () \<and>
    length (kern (snd (do_computations env st))) =
      (if length (kern st) < K st then Suc (length (kern st)) else K st) \<and>
    (length (kern st) < K st \<longrightarrow>
       kern (snd (do_computations env st)) = kern st @ [next_ref st] \<and>
       next_ref st \<notin> set (kern st) \<and>
       heap (snd (do_computations env st)) (next_ref st) = kern_copy env (heap st (last (kern st))) \<and>
       parameters (snd (do_computations env st)) = parameters st @ [PKern (next_ref st)]) \<and>
    (K st \<le> length (kern st) \<longrightarrow>
       kern (snd (do_computations env st)) = take (K st) (kern st) \<and>
       set (parameters (snd (do_computations env st))) =
         set (parameters st) - PKern ` set (drop (K st) (kern st)))"
proof (cases "length (kern st) < K st")
  case True
  then have ne': "kern st \<noteq> []" using ne by simp
  have nin: "next_ref st \<notin> set (kern st)"
    using linked fresh by (meson less_irrefl)
  show ?thesis
    using True nin by (simp add: do_computations_def grow_ok [OF True ne' fresh] shrink_def)
next
  case False
  then have ge: "K st \<le> length (kern st)" by simp
  have g: "grow env st = (Inr (), st)" using False by (simp add: grow_def)
  show ?thesis
    using False ge shrink_ok [OF d dp linked ge]
    by (simp add: do_computations_def g split: prod.splits sum.splits)
qed

theorem do_computations_reconciles_witness:
  "fst (do_computations ex_env (ex_model\<lparr>K := 2\<rparr>)) = Inr () \<and>
   length (kern (snd (do_computations ex_env (ex_model\<lparr>K := 2\<rparr>)))) = 2 \<and>
   kern (snd (do_computations ex_env (ex_model\<lparr>K := 2\<rparr>))) = [0, 1] \<and>
   parameters (snd (do_computations ex_env (ex_model\<lparr>K := 2\<rparr>))) = [PVariance, PKern 0, PKern 1]"
  using do_computations_reconciles [of "ex_model\<lparr>K := 2\<rparr>" ex_env]
  by (simp add: ex_model_def)

section \<open>Operations that only read\<close>

subsection \<open>Computations that maintain a property of the store\<close>

lemma keeps_bind:
  assumes "keeps I m Q" and "\<And>x. Q x \<Longrightarrow> keeps I (f x) R"
  shows "keeps I (bind_m m f) R"
  unfolding keeps_def
proof (intro allI impI)
  fix s assume I: "I s"
  obtain r s' where ms: "m s = (r, s')" by (cases "m s")
  from assms(1) I ms have I': "I s'" and q: "\<forall>x. r = Inr x \<longrightarrow> Q x"
    by (auto simp: keeps_def)
  show "I (snd (bind_m m f s)) \<and> (\<forall>x. fst (bind_m m f s) = Inr x \<longrightarrow> R x)"
  proof (cases r)
    case (Inl e)
    then show ?thesis using I' ms by (simp add: bind_m_def)
  next
    case (Inr x)
    then have "keeps I (f x) R" using assms(2) q by simp
    then show ?thesis using I' ms Inr by (simp add: bind_m_def keeps_def)
  qed
qed

lemma keeps_weaken: "keeps I m Q \<Longrightarrow> (\<And>x. Q x \<Longrightarrow> R x) \<Longrightarrow> keeps I m R"
  by (auto simp: keeps_def)

lemma keeps_return: "Q x \<Longrightarrow> keeps I (return_m x) Q"
  by (simp add: keeps_def return_m_def)

lemma keeps_lift: "keeps I (lift_m r) (\<lambda>_. True)"
  by (simp add: keeps_def lift_m_def)

lemma keeps_read: "keeps I (read_m f) (\<lambda>_. True)"
  by (simp add: keeps_def read_m_def)

lemma preserved_refl: "preserved lib s s"
  by (simp add: preserved_def)

lemma preserved_trans: "preserved lib s s' \<Longrightarrow> preserved lib s' s'' \<Longrightarrow> preserved lib s s''"
  by (auto simp: preserved_def)

lemma keeps_alloc: "keeps (preserved lib s0) (alloc A) (\<lambda>g. next_addr s0 \<le> g)"
  by (auto simp: keeps_def alloc_def preserved_def)

lemma keeps_setitem_at:
  "next_addr s0 \<le> g \<Longrightarrow> keeps (preserved lib s0) (setitem_at g n m v) (\<lambda>_. True)"
  by (auto simp: keeps_def setitem_at_def preserved_def split: sum.splits)

lemma keeps_lib:
  assumes "\<forall>s. preserved lib s (snd (m s))"
  shows "keeps (preserved lib s0) m (\<lambda>_. True)"
  using assms by (auto simp: keeps_def intro: preserved_trans)

lemma keeps_kern_K: "lib_preserves lib \<Longrightarrow> keeps (preserved lib s0) (lib_kern_K lib kr A) (\<lambda>_. True)"
  by (rule keeps_lib) (simp add: lib_preserves_def)

lemma keeps_cho_factor: "lib_preserves lib \<Longrightarrow> keeps (preserved lib s0) (lib_cho_factor lib A) (\<lambda>_. True)"
  by (rule keeps_lib) (simp add: lib_preserves_def)

lemma keeps_cho_solve: "lib_preserves lib \<Longrightarrow> keeps (preserved lib s0) (lib_cho_solve lib c B) (\<lambda>_. True)"
  by (rule keeps_lib) (simp add: lib_preserves_def)

lemma keeps_linalg_solve:
  "lib_preserves lib \<Longrightarrow> keeps (preserved lib s0) (lib_linalg_solve lib A B) (\<lambda>_. True)"
  by (rule keeps_lib) (simp add: lib_preserves_def)

lemma keeps_pdinv: "lib_preserves lib \<Longrightarrow> keeps (preserved lib s0) (lib_pdinv lib A) (\<lambda>_. True)"
  by (rule keeps_lib) (simp add: lib_preserves_def)

lemma keeps_slogdet: "lib_preserves lib \<Longrightarrow> keeps (preserved lib s0) (lib_slogdet lib A) (\<lambda>_. True)"
  by (rule keeps_lib) (simp add: lib_preserves_def)

lemma keeps_mixing_prop_bound:
  "lib_preserves lib \<Longrightarrow> keeps (preserved lib s0) (lib_mixing_prop_bound lib) (\<lambda>_. True)"
  by (rule keeps_lib) (simp add: lib_preserves_def)

lemma keeps_mixing_prop_bound_grad:
  "lib_preserves lib \<Longrightarrow> keeps (preserved lib s0) (lib_mixing_prop_bound_grad lib) (\<lambda>_. True)"
  by (rule keeps_lib) (simp add: lib_preserves_def)

lemma keeps_seq: "keeps I m (\<lambda>_. True) \<Longrightarrow> (\<And>x. keeps I (f x) R) \<Longrightarrow> keeps I (bind_m m f) R"
  by (rule keeps_bind)

lemma keeps_return_any: "keeps I (return_m x) (\<lambda>_. True)"
  by (simp add: keeps_return)

lemmas keeps_steps = keeps_seq keeps_read keeps_lift keeps_return_any keeps_kern_K keeps_cho_factor
  keeps_cho_solve keeps_linalg_solve keeps_pdinv keeps_slogdet keeps_mixing_prop_bound
  keeps_mixing_prop_bound_grad

lemma keeps_bound_terms_m:
  "lib_preserves lib \<Longrightarrow> keeps (preserved lib s0) (bound_terms_m lib i kr) (\<lambda>_. True)"
  unfolding bound_terms_m_def by (intro keeps_steps)

lemma keeps_bound_loop_m:
  "lib_preserves lib \<Longrightarrow> keeps (preserved lib s0) (bound_loop_m lib ks acc) (\<lambda>_. True)"
proof (induction ks arbitrary: acc)
  case Nil
  show ?case by (simp add: keeps_return_any)
next
  case (Cons ik ks)
  obtain i kr where ik: "ik = (i, kr)" by (cases ik)
  show ?case unfolding ik bound_loop_m.simps
  proof (rule keeps_seq [OF keeps_bound_terms_m [OF Cons.prems]])
    fix x :: "real \<times> real \<times> real"
    obtain a b c where x: "x = (a, b, c)" by (cases x) auto
    show "keeps (preserved lib s0)
        (case x of (fit, penalty, const) \<Rightarrow> bound_loop_m lib ks (acc + fit + penalty + const))
        (\<lambda>_. True)"
      unfolding x by (simp add: Cons.IH [OF Cons.prems])
  qed
qed

lemma keeps_bound_m: "lib_preserves lib \<Longrightarrow> keeps (preserved lib s0) (bound_m lib) (\<lambda>_. True)"
  unfolding bound_m_def by (intro keeps_steps keeps_bound_loop_m)

lemma keeps_natgrad_inner_m:
  "next_addr s0 \<le> g \<Longrightarrow>
   keeps (preserved lib s0) (natgrad_inner_m dL_dB B_inv i ns g) (\<lambda>_. True)"
proof (induction ns)
  case Nil
  show ?case by (simp add: keeps_return_any)
next
  case (Cons n ns)
  show ?case unfolding natgrad_inner_m.simps
  proof (rule keeps_bind [OF keeps_alloc])
    fix gb assume gb: "next_addr s0 \<le> gb"
    show "keeps (preserved lib s0)
        (bind_m (read_m variance_value) (\<lambda>var.
         bind_m (read_m (\<lambda>s. arrays s (phi_at s))) (\<lambda>ph.
         bind_m (lift_m (getitem2 ph n i)) (\<lambda>p.
         bind_m (setitem_at gb n n (- var / perturbation_denominator p)) (\<lambda>_.
         bind_m (read_m (\<lambda>s. arrays s gb)) (\<lambda>G.
         bind_m (lift_m (np_dot dL_dB G)) (\<lambda>M.
         bind_m (setitem_at g n i (1 / 2 * trace M)) (\<lambda>_.
           natgrad_inner_m dL_dB B_inv i ns g))))))))
        (\<lambda>_. True)"
      by (intro keeps_steps keeps_setitem_at gb Cons.prems Cons.IH)
  qed
qed

lemma keeps_natgrad_loop_m:
  "lib_preserves lib \<Longrightarrow> next_addr s0 \<le> g \<Longrightarrow>
   keeps (preserved lib s0) (natgrad_loop_m lib ks g) (\<lambda>_. True)"
proof (induction ks)
  case Nil
  show ?case by (simp add: keeps_return_any)
next
  case (Cons ik ks)
  obtain i kr where ik: "ik = (i, kr)" by (cases ik)
  show ?case unfolding ik natgrad_loop_m.simps
    by (intro keeps_steps keeps_natgrad_inner_m Cons.prems Cons.IH)
qed

lemma keeps_vb_grad_natgrad_m:
  assumes lib: "lib_preserves lib"
  shows "keeps (preserved lib s0) (vb_grad_natgrad_m lib) (\<lambda>_. True)"
  unfolding vb_grad_natgrad_m_def
proof (rule keeps_seq [OF keeps_read], rule keeps_bind [OF keeps_alloc])
  fix ph :: mat and g assume g: "next_addr s0 \<le> g"
  show "keeps (preserved lib s0)
     (bind_m (read_m kern_refs) (\<lambda>ks.
      bind_m (natgrad_loop_m lib (enumerate 0 ks) g) (\<lambda>_.
      bind_m (lib_mixing_prop_bound_grad lib) (\<lambda>mg.
      bind_m (read_m (\<lambda>s. arrays s g)) (\<lambda>G.
      bind_m (lift_m (np_add G mg)) (\<lambda>ga.
      bind_m (read_m (\<lambda>s. arrays s (Hgrad_at s))) (\<lambda>hg.
      bind_m (lift_m (np_add ga hg)) (\<lambda>grad_phi.
      bind_m (read_m (\<lambda>s. arrays s (phi_at s))) (\<lambda>ph'.
        lift_m (natgrad_project ph' grad_phi))))))))))
     (\<lambda>_. True)"
    by (intro keeps_steps keeps_natgrad_loop_m lib g)
qed

lemma preserved_model_unchanged:
  "preserved lib s s' \<Longrightarrow> allocated s \<Longrightarrow> model_unchanged lib s s'"
  by (simp add: preserved_def allocated_def model_unchanged_def)

lemma ex_lib_preserves: "lib_preserves ex_lib"
  unfolding lib_preserves_def
  by (auto simp: ex_lib_def preserved_def cached_K_def fresh_solve_def bind_m_def lift_m_def
      alloc_def read_m_def return_m_def split: sum.splits)

lemmas machine_defs = bind_m_def lift_m_def alloc_def read_m_def return_m_def setitem_at_def
  cached_K_def fresh_solve_def ex_lib_def ex_machine2_def

subsection \<open>The store model computes what the functional model computes\<close>

lemma represents_machine_of: "represents st (machine_of st)"
  by (simp add: represents_def machine_of_def allocated_def)

lemma bind_m_lift: "bind_m (lift_m r) f s = (case r of Inl e \<Rightarrow> (Inl e, s) | Inr x \<Rightarrow> f x s)"
  by (simp add: bind_m_def lift_m_def split: sum.split)

lemma bind_m_read: "bind_m (read_m g) f s = f (g s) s"
  by (simp add: bind_m_def read_m_def)

lemma bind_m_return: "bind_m (return_m x) f s = f x s"
  by (simp add: bind_m_def return_m_def)

lemma lib_of_simps:
  "lib_kern_K (lib_of env st) kr A = bind_m (read_m (\<lambda>s. objects s kr)) (\<lambda>k. lift_m (kern_K env k A))"
  "lib_cho_factor (lib_of env st) A = lift_m (cho_factor env A)"
  "lib_cho_solve (lib_of env st) c B = lift_m (cho_solve env c B)"
  "lib_linalg_solve (lib_of env st) A B = lift_m (linalg_solve env A B)"
  "lib_pdinv (lib_of env st) A = lift_m (pdinv env A)"
  "lib_slogdet (lib_of env st) A = lift_m (slogdet env A)"
  "lib_mixing_prop_bound (lib_of env st) = return_m (mixing_prop_bound env st)"
  "lib_mixing_prop_bound_grad (lib_of env st) = return_m (mixing_prop_bound_grad env st)"
  by (simp_all add: lib_of_def)

lemma lift_m_apply: "lift_m r s = (r, s)"
  by (simp add: lift_m_def)

lemma return_m_apply: "return_m x s = (Inr x, s)"
  by (simp add: return_m_def)

lemmas run_simps = bind_m_lift bind_m_read bind_m_return lift_m_apply return_m_apply

lemma bind_m_assoc: "bind_m (bind_m m f) g = bind_m m (\<lambda>x. bind_m (f x) g)"
  by (rule ext) (simp add: bind_m_def split: prod.split sum.split)

lemma bound_terms_m_refines:
  assumes "represents st s"
  shows "bound_terms_m (lib_of env st) i kr s = (bound_terms env st i kr, s)"
  using assms unfolding represents_def bound_terms_m_def bound_terms_def bound_B_inv_def
  by (simp add: lib_of_simps bind_m_assoc run_simps ebind_def split: sum.split)

lemma bound_loop_m_refines:
  assumes "represents st s"
  shows "bound_loop_m (lib_of env st) ks acc s = (bound_loop env st ks acc, s)"
proof (induction ks arbitrary: acc)
  case Nil
  show ?case by (simp add: run_simps)
next
  case (Cons ik ks)
  obtain i kr where ik: "ik = (i, kr)" by (cases ik)
  show ?case
    by (simp add: ik bind_m_def bound_terms_m_refines [OF assms] Cons.IH ebind_def
        split: sum.split prod.split)
qed

lemma bound_m_refines:
  assumes "represents st s"
  shows "bound_m (lib_of env st) s = (fst (bound env st), s)"
proof -
  have k: "kern_refs s = kern st" and h: "H_value s = H st"
    using assms by (simp_all add: represents_def)
  show ?thesis
    by (simp add: bound_m_def bound_def bind_m_read k h bind_m_def [of "bound_loop_m _ _ _"]
        bound_loop_m_refines [OF assms] lib_of_simps run_simps ebind_def split: sum.split)
qed

lemma bind_m_alloc:
  "bind_m (alloc A) f s =
     f (next_addr s) (s\<lparr>arrays := (arrays s)(next_addr s := A), next_addr := Suc (next_addr s)\<rparr>)"
  by (simp add: bind_m_def alloc_def)

lemma bind_m_setitem_at:
  "bind_m (setitem_at a n m v) f s =
     (case setitem2 (arrays s a) n m v of
        Inl e \<Rightarrow> (Inl e, s)
      | Inr A \<Rightarrow> f () (s\<lparr>arrays := (arrays s)(a := A)\<rparr>))"
  by (simp add: bind_m_def setitem_at_def split: sum.split)

lemma natgrad_inner_m_refines:
  assumes "working st g s"
  shows "case natgrad_inner st dL_dB B_inv i ns (arrays s g) of
           Inl e \<Rightarrow> fst (natgrad_inner_m dL_dB B_inv i ns g s) = Inl e
         | Inr G \<Rightarrow> fst (natgrad_inner_m dL_dB B_inv i ns g s) = Inr () \<and>
             arrays (snd (natgrad_inner_m dL_dB B_inv i ns g s)) g = G \<and>
             working st g (snd (natgrad_inner_m dL_dB B_inv i ns g s))"
  using assms
proof (induction ns arbitrary: s)
  case Nil
  then show ?case by (simp add: return_m_apply)
next
  case (Cons n ns)
  from Cons.prems have ph: "arrays s (phi_at s) = phi st" and var: "variance_value s = variance st"
    and pa: "phi_at s < next_addr s" and ga: "g < next_addr s" and gp: "g \<noteq> phi_at s"
    by (simp_all add: working_def represents_def allocated_def)
  have pn: "phi_at s \<noteq> next_addr s" and gn: "g \<noteq> next_addr s" using pa ga by simp_all
  show ?case
  proof (cases "getitem2 (phi st) n i")
    case (Inl e)
    then show ?thesis by (simp add: bind_m_alloc run_simps ph pn)
  next
    case p: (Inr p)
    show ?thesis
    proof (cases "setitem2 (zeros_like B_inv) n n (- (variance st / perturbation_denominator p))")
      case (Inl e)
      then show ?thesis by (simp add: bind_m_alloc bind_m_setitem_at run_simps ph pn p var)
    next
      case A: (Inr A)
      show ?thesis
      proof (cases "np_dot dL_dB A")
        case (Inl e)
        then show ?thesis by (simp add: bind_m_alloc bind_m_setitem_at run_simps ph pn p var A)
      next
        case M: (Inr M)
        show ?thesis
        proof (cases "setitem2 (arrays s g) n i (trace M / 2)")
          case (Inl e)
          then show ?thesis
            by (simp add: bind_m_alloc bind_m_setitem_at run_simps ph pn p var A M gn)
        next
          case G: (Inr G)
          define s3 where "s3 = s\<lparr>next_addr := Suc (next_addr s),
            arrays := (arrays s)(next_addr s := A, g := G)\<rparr>"
          have run: "natgrad_inner_m dL_dB B_inv i (n # ns) g s = natgrad_inner_m dL_dB B_inv i ns g s3"
            by (simp add: bind_m_alloc bind_m_setitem_at run_simps ph pn p var A M gn G s3_def)
          have w3: "working st g s3"
            using Cons.prems
            by (auto simp: working_def represents_def allocated_def s3_def)
          have g3: "arrays s3 g = G" by (simp add: s3_def)
          have pure: "natgrad_inner st dL_dB B_inv i (n # ns) (arrays s g) =
              natgrad_inner st dL_dB B_inv i ns G"
            by (simp add: p A M G)
          show ?thesis using Cons.IH [OF w3] by (simp only: run pure g3)
        qed
      qed
    qed
  qed
qed

lemma bind_m_Inl: "fst (m s) = Inl e \<Longrightarrow> fst (bind_m m f s) = Inl e"
  by (cases "m s") (simp add: bind_m_def)

lemma bind_m_Inr: "fst (m s) = Inr x \<Longrightarrow> bind_m m f s = f x (snd (m s))"
  by (cases "m s") (simp add: bind_m_def)

lemma natgrad_loop_step:
  "natgrad_loop env st ((i, kr) # rest) G =
     ebind (natgrad_dL_dB env st i kr) (\<lambda>(B_inv, dL_dB).
     ebind (natgrad_inner st dL_dB B_inv i [0..<nrows (phi st)] G) (natgrad_loop env st rest))"
  by (simp add: natgrad_dL_dB_def ebind_def split: sum.split)

lemma natgrad_loop_m_step:
  assumes "represents st s"
  shows "natgrad_loop_m (lib_of env st) ((i, kr) # rest) g s =
     (case natgrad_dL_dB env st i kr of
        Inl e \<Rightarrow> (Inl e, s)
      | Inr (B_inv, dL_dB) \<Rightarrow>
          bind_m (natgrad_inner_m dL_dB B_inv i [0..<nrows (phi st)] g)
            (\<lambda>_. natgrad_loop_m (lib_of env st) rest g) s)"
  using assms unfolding represents_def natgrad_dL_dB_def natgrad_B_inv_def B_inv_denominator_def
  by (simp add: lib_of_simps bind_m_assoc run_simps ebind_def split: sum.split)

lemma natgrad_loop_m_refines:
  assumes "working st g s"
  shows "case natgrad_loop env st ks (arrays s g) of
           Inl e \<Rightarrow> fst (natgrad_loop_m (lib_of env st) ks g s) = Inl e
         | Inr G \<Rightarrow> fst (natgrad_loop_m (lib_of env st) ks g s) = Inr () \<and>
             arrays (snd (natgrad_loop_m (lib_of env st) ks g s)) g = G \<and>
             working st g (snd (natgrad_loop_m (lib_of env st) ks g s))"
  using assms
proof (induction ks arbitrary: s)
  case Nil
  then show ?case by (simp add: return_m_apply)
next
  case (Cons ik ks)
  obtain i kr where ik: "ik = (i, kr)" by (cases ik)
  from Cons.prems have rep: "represents st s" by (simp add: working_def)
  note pure = natgrad_loop_step [of env st i kr ks "arrays s g"]
  note run = natgrad_loop_m_step [OF rep, of env i kr ks g]
  show ?case
  proof (cases "natgrad_dL_dB env st i kr")
    case (Inl e)
    then show ?thesis by (simp add: ik pure run del: natgrad_loop.simps natgrad_loop_m.simps)
  next
    case (Inr bd)
    obtain B_inv dL_dB where bd: "bd = (B_inv, dL_dB)" by (cases bd)
    let ?m = "natgrad_inner_m dL_dB B_inv i [0..<nrows (phi st)] g"
    let ?f = "\<lambda>_::unit. natgrad_loop_m (lib_of env st) ks g"
    have run': "natgrad_loop_m (lib_of env st) (ik # ks) g s = bind_m ?m ?f s"
      by (simp add: ik run Inr bd del: natgrad_loop_m.simps)
    note inner = natgrad_inner_m_refines [OF Cons.prems, of dL_dB B_inv i "[0..<nrows (phi st)]"]
    show ?thesis
    proof (cases "natgrad_inner st dL_dB B_inv i [0..<nrows (phi st)] (arrays s g)")
      case (Inl e)
      with inner have "fst (?m s) = Inl e" by simp
      then have "fst (bind_m ?m ?f s) = Inl e" by (rule bind_m_Inl)
      then have l: "fst (natgrad_loop_m (lib_of env st) (ik # ks) g s) = Inl e"
        by (simp only: run')
      have p: "natgrad_loop env st (ik # ks) (arrays s g) = Inl e"
        by (simp add: ik pure Inr bd Inl del: natgrad_loop.simps)
      show ?thesis by (simp only: l p sum.case)
    next
      case G: (Inr G)
      with inner have r: "fst (?m s) = Inr ()" and a: "arrays (snd (?m s)) g = G"
        and w: "working st g (snd (?m s))" by simp_all
      have run'': "natgrad_loop_m (lib_of env st) (ik # ks) g s =
          natgrad_loop_m (lib_of env st) ks g (snd (?m s))"
        by (simp only: run' bind_m_Inr [of ?m s "()" ?f, OF r])
      have pure': "natgrad_loop env st (ik # ks) (arrays s g) = natgrad_loop env st ks G"
        by (simp add: ik pure Inr bd G del: natgrad_loop.simps)
      show ?thesis using Cons.IH [OF w] by (simp only: run'' pure' a)
    qed
  qed
qed

lemma vb_grad_natgrad_m_refines:
  assumes "represents st s"
  shows "fst (vb_grad_natgrad_m (lib_of env st) s) = fst (vb_grad_natgrad env st)"
proof -
  define g where "g = next_addr s"
  define s1 where "s1 = s\<lparr>arrays := (arrays s)(g := zeros_like (phi st)), next_addr := Suc g\<rparr>"
  let ?loop = "natgrad_loop_m (lib_of env st) (enumerate 0 (kern st)) g"
  let ?rest = "\<lambda>_::unit.
      bind_m (lib_mixing_prop_bound_grad (lib_of env st)) (\<lambda>mg.
      bind_m (read_m (\<lambda>s. arrays s g)) (\<lambda>G.
      bind_m (lift_m (np_add G mg)) (\<lambda>ga.
      bind_m (read_m (\<lambda>s. arrays s (Hgrad_at s))) (\<lambda>hg.
      bind_m (lift_m (np_add ga hg)) (\<lambda>grad_phi.
      bind_m (read_m (\<lambda>s. arrays s (phi_at s))) (\<lambda>ph'.
        lift_m (natgrad_project ph' grad_phi)))))))"
  from assms have ph: "arrays s (phi_at s) = phi st" and k: "kern_refs s = kern st"
    by (simp_all add: represents_def)
  have run: "vb_grad_natgrad_m (lib_of env st) s = bind_m ?loop ?rest s1"
    by (simp add: vb_grad_natgrad_m_def bind_m_read bind_m_alloc ph k g_def s1_def)
  have w1: "working st g s1"
    using assms by (auto simp: working_def represents_def allocated_def s1_def g_def)
  have g1: "arrays s1 g = zeros_like (phi st)" by (simp add: s1_def)
  note loop = natgrad_loop_m_refines [OF w1, of env "enumerate 0 (kern st)"]
  show ?thesis
  proof (cases "natgrad_loop env st (enumerate 0 (kern st)) (zeros_like (phi st))")
    case (Inl e)
    with loop g1 have "fst (?loop s1) = Inl e" by simp
    then have "fst (bind_m ?loop ?rest s1) = Inl e" by (rule bind_m_Inl)
    then show ?thesis by (simp add: run vb_grad_natgrad_def Inl)
  next
    case G: (Inr G)
    with loop g1 have r: "fst (?loop s1) = Inr ()" and a: "arrays (snd (?loop s1)) g = G"
      and w: "working st g (snd (?loop s1))" by simp_all
    from w have hg: "arrays (snd (?loop s1)) (Hgrad_at (snd (?loop s1))) = Hgrad st"
      and ph2: "arrays (snd (?loop s1)) (phi_at (snd (?loop s1))) = phi st"
      by (simp_all add: working_def represents_def)
    have "bind_m ?loop ?rest s1 = ?rest () (snd (?loop s1))" by (rule bind_m_Inr [of ?loop s1 "()" ?rest, OF r])
    then show ?thesis
      by (simp add: run vb_grad_natgrad_def G lib_of_simps run_simps a hg ph2 ebind_def
          split: sum.split)
  qed
qed

lemma lib_of_preserves: "lib_preserves (lib_of env st)"
  by (simp add: lib_preserves_def lib_of_simps preserved_refl run_simps)

subsection \<open>The frame of bound and vb_grad_natgrad\<close>

text \<open>
  Claim C9: a call of \<^verbatim>\<open>bound\<close> or \<^verbatim>\<open>vb_grad_natgrad\<close> leaves the model state as it was. The
  data \<open>X\<close> and \<open>Y\<close>, \<open>phi\<close>, \<open>Hgrad\<close>, the kernel list, the parameter values of the kernels,
  the variance and the entropy are the same after the call, for every store in which the
  arrays of the model are allocated and for all collaborators that keep to their contract.
  The two functions write by index only into arrays that they have allocated themselves.
\<close>

theorem bound_vb_grad_natgrad_frame:
  assumes "lib_preserves lib" and "allocated s"
  shows "model_unchanged lib s (snd (bound_m lib s)) \<and>
         model_unchanged lib s (snd (vb_grad_natgrad_m lib s))"
proof -
  have "preserved lib s (snd (bound_m lib s))"
    using keeps_bound_m [OF assms(1), of s] preserved_refl [of lib s] by (simp add: keeps_def)
  moreover have "preserved lib s (snd (vb_grad_natgrad_m lib s))"
    using keeps_vb_grad_natgrad_m [OF assms(1), of s] preserved_refl [of lib s]
    by (simp add: keeps_def)
  ultimately show ?thesis using assms(2) by (simp add: preserved_model_unchanged)
qed

theorem bound_vb_grad_natgrad_frame_witness:
  "lib_preserves ex_lib \<and> allocated ex_machine2 \<and>
   model_unchanged ex_lib ex_machine2 (snd (bound_m ex_lib ex_machine2)) \<and>
   model_unchanged ex_lib ex_machine2 (snd (vb_grad_natgrad_m ex_lib ex_machine2)) \<and>
   \<not> isl (fst (bound_m ex_lib ex_machine2)) \<and>
   objects (snd (bound_m ex_lib ex_machine2)) 0 = ((1, 0), Some [[1]]) \<and>
   \<not> isl (fst (vb_grad_natgrad_m ex_lib ex_machine2)) \<and>
   next_addr ex_machine2 = 4 \<and>
   next_addr (snd (vb_grad_natgrad_m ex_lib ex_machine2)) = 9 \<and>
   objects (snd (vb_grad_natgrad_m ex_lib ex_machine2)) 1 = ((2, 0), Some [[2]])"
proof -
  have a: "allocated ex_machine2" and n: "next_addr ex_machine2 = 4"
    by (simp_all add: allocated_def ex_machine2_def)
  have b: "\<not> isl (fst (bound_m ex_lib ex_machine2)) \<and>
      objects (snd (bound_m ex_lib ex_machine2)) 0 = ((1, 0), Some [[1]])"
    by (simp add: bound_m_def bound_terms_m_def machine_defs array_defs ex_defs upt_rec)
  have v: "\<not> isl (fst (vb_grad_natgrad_m ex_lib ex_machine2)) \<and>
      next_addr (snd (vb_grad_natgrad_m ex_lib ex_machine2)) = 9 \<and>
      objects (snd (vb_grad_natgrad_m ex_lib ex_machine2)) 1 = ((2, 0), Some [[2]])"
    by (simp add: vb_grad_natgrad_m_def perturbation_denominator_def natgrad_project_def
        machine_defs array_defs ex_defs upt_rec)
  from bound_vb_grad_natgrad_frame [OF ex_lib_preserves a] ex_lib_preserves a n b v
  show ?thesis by blast
qed

section \<open>The natural gradient\<close>

text \<open>
  Claim C4: when every row of \<open>phi\<close> is non-negative and sums to 1, the natural gradient
  that \<^verbatim>\<open>vb_grad_natgrad\<close> returns, read as an \<open>N\<close> by \<open>K\<close> array, has a zero dot product
  with every row of \<open>phi\<close>.
\<close>

theorem vb_grad_natgrad_orthogonal:
  assumes ph: "is_mat (N st) (K st) (phi st)" and n0: "0 < N st"
    and mg: "is_mat (N st) (K st) (mixing_prop_bound_grad env st)"
    and hg: "is_mat (N st) (K st) (Hgrad st)"
    and simplex: "\<forall>row\<in>set (phi st). (\<forall>p\<in>set row. 0 \<le> p) \<and> sum_list row = 1"
    and res: "fst (vb_grad_natgrad env st) = Inr (grad, natgrad)"
  shows "length natgrad = N st * K st \<and>
    (\<forall>n<N st. (\<Sum>k<K st. phi st ! n ! k * natgrad ! (n * K st + k)) = 0)"
proof -
  from res obtain grad_Lm g grad_phi where
    loop: "natgrad_loop env st (enumerate 0 (kern st)) (zeros_like (phi st)) = Inr grad_Lm"
    and a1: "np_add grad_Lm (mixing_prop_bound_grad env st) = Inr g"
    and a2: "np_add g (Hgrad st) = Inr grad_phi"
    and pr: "natgrad_project (phi st) grad_phi = Inr (grad, natgrad)"
    by (auto simp: vb_grad_natgrad_def ebind_eq_Inr)
  have m1: "is_mat (N st) (K st) grad_Lm"
    by (rule natgrad_loop_mat [OF loop zeros_like_mat [OF ph]])
  have m2: "is_mat (N st) (K st) g"
    using broadcast2_same [OF m1 mg n0, of "\<lambda>a b. a + b"] a1 by (auto simp: np_add_def)
  have m3: "is_mat (N st) (K st) grad_phi"
    using broadcast2_same [OF m2 hg n0, of "\<lambda>a b. a + b"] a2 by (auto simp: np_add_def)
  have rows: "\<forall>i<N st. sum_list (phi st ! i) = 1"
    using simplex is_mat_length [OF ph] by simp
  from natgrad_project_orth [OF ph m3 n0 rows] pr
  show ?thesis by auto
qed

theorem vb_grad_natgrad_orthogonal_witness:
  "\<exists>grad natgrad. fst (vb_grad_natgrad ex_env ex_model2) = Inr (grad, natgrad) \<and>
     length natgrad = 2 \<and>
     phi ex_model2 ! 0 ! 0 * natgrad ! 0 + phi ex_model2 ! 0 ! 1 * natgrad ! 1 = 0"
proof -
  have "\<not> isl (fst (vb_grad_natgrad ex_env ex_model2))"
    by (simp add: vb_grad_natgrad_def ex_env_def ex_model2_def natgrad_B_inv_def
        B_inv_denominator_def perturbation_denominator_def column_def
        ncols_def nrows_def diag_def np_add_def np_sub_def np_mul_def broadcast2_def bdim_def
        stretch_def bias_K_def small_solve_def small_pdinv_def tdot_def dotp_def
        getitem2_def setitem2_def zeros_like_def np_dot_def mat_mul_def np_T_def trace_def
        natgrad_project_def row_sums_col_def flatten_def upt_rec)
  then obtain grad natgrad where r: "fst (vb_grad_natgrad ex_env ex_model2) = Inr (grad, natgrad)"
    by (cases "fst (vb_grad_natgrad ex_env ex_model2)") auto
  have h1: "is_mat (N ex_model2) (K ex_model2) (phi ex_model2)"
    and h2: "0 < N ex_model2"
    and h3: "is_mat (N ex_model2) (K ex_model2) (mixing_prop_bound_grad ex_env ex_model2)"
    and h4: "is_mat (N ex_model2) (K ex_model2) (Hgrad ex_model2)"
    and h5: "\<forall>row\<in>set (phi ex_model2). (\<forall>p\<in>set row. 0 \<le> p) \<and> sum_list row = 1"
    by (simp_all add: ex_model2_def ex_env_def is_mat_def zeros_like_def)
  have k: "K ex_model2 = 2" and n: "N ex_model2 = 1" by (simp_all add: ex_model2_def)
  from vb_grad_natgrad_orthogonal [OF h1 h2 h3 h4 h5 r]
  have l: "length natgrad = 2"
    and o: "(\<Sum>k<2. phi ex_model2 ! 0 ! k * natgrad ! (0 * 2 + k)) = 0"
    by (simp_all add: k n)
  have "phi ex_model2 ! 0 ! 0 * natgrad ! 0 + phi ex_model2 ! 0 ! 1 * natgrad ! 1 = 0"
    using o by (simp add: numeral_2_eq_2)
  then show ?thesis using r l by blast
qed

text \<open>
  Claim C5: with \<open>dL/dB\<close> and \<open>B_inv\<close> square of the size of the data, the inner loop of
  \<^verbatim>\<open>vb_grad_natgrad\<close>, which takes half the trace of \<open>dL/dB\<close> times a one-hot matrix,
  computes what the closed form computes: the same entries, the same gradient array, and
  the same error where an index is outside \<open>phi\<close>.
\<close>

theorem natgrad_inner_closed_form:
  assumes dL: "is_mat m m dL_dB" and B: "is_mat m m B_inv" and ns: "\<forall>n\<in>set ns. n < m"
  shows "natgrad_inner st dL_dB B_inv i ns grad_Lm = natgrad_inner_closed st dL_dB i ns grad_Lm"
  using ns
proof (induction ns arbitrary: grad_Lm)
  case Nil
  show ?case by simp
next
  case (Cons n ns)
  have n: "n < m" using Cons.prems by simp
  have rest: "\<forall>n\<in>set ns. n < m" using Cons.prems by simp
  show ?case
  proof (cases "getitem2 (phi st) n i")
    case (Inl e)
    then show ?thesis by simp
  next
    case (Inr p)
    from onehot_trace [OF dL B n, of "- variance st / perturbation_denominator p"]
    obtain G M where G: "setitem2 (zeros_like B_inv) n n (- variance st / perturbation_denominator p) = Inr G"
      and M: "np_dot dL_dB G = Inr M"
      and t: "trace M = dL_dB ! n ! n * (- variance st / perturbation_denominator p)" by blast
    have lhs: "natgrad_inner st dL_dB B_inv i (n # ns) grad_Lm =
        ebind (setitem2 grad_Lm n i (1 / 2 * trace M))
          (\<lambda>g. natgrad_inner st dL_dB B_inv i ns g)"
      by (simp only: natgrad_inner.simps Inr G M ebind_simps)
    have rhs: "natgrad_inner_closed st dL_dB i (n # ns) grad_Lm =
        ebind (setitem2 grad_Lm n i
                 (1 / 2 * (dL_dB ! n ! n) * (- variance st / (p\<^sup>2 + 1 / 1000000))))
          (\<lambda>g. natgrad_inner_closed st dL_dB i ns g)"
      by (simp only: natgrad_inner_closed.simps Inr ebind_simps)
    have v: "1 / 2 * trace M = 1 / 2 * (dL_dB ! n ! n) * (- variance st / (p\<^sup>2 + 1 / 1000000))"
      by (simp only: t mult.assoc perturbation_denominator_def)
    have f: "(\<lambda>g. natgrad_inner st dL_dB B_inv i ns g) = (\<lambda>g. natgrad_inner_closed st dL_dB i ns g)"
      by (intro ext) (rule Cons.IH [OF rest])
    show ?thesis
      by (simp only: lhs rhs v f)
  qed
qed

theorem natgrad_inner_closed_form_witness:
  "is_mat 2 2 [[1, 2], [3, 4]] \<and> is_mat 2 2 [[1, 0], [0, 1]] \<and>
   natgrad_inner (ex_model\<lparr>phi := [[1 / 2], [1]]\<rparr>) [[1, 2], [3, 4]] [[1, 0], [0, 1]] 0 [0, 1] [[0], [0]]
     = natgrad_inner_closed (ex_model\<lparr>phi := [[1 / 2], [1]]\<rparr>) [[1, 2], [3, 4]] 0 [0, 1] [[0], [0]] \<and>
   natgrad_inner_closed (ex_model\<lparr>phi := [[1 / 2], [1]]\<rparr>) [[1, 2], [3, 4]] 0 [0, 1] [[0], [0]]
     = Inr [[- 500000 / 250001], [- 2000000 / 1000001]]"
proof -
  have h1: "is_mat 2 2 [[1, 2], [3, 4]]" and h2: "is_mat 2 2 [[1, 0], [0, 1]]"
    and h3: "\<forall>n\<in>set [0, 1]. n < (2::nat)"
    by (simp_all add: is_mat_def)
  have v: "natgrad_inner_closed (ex_model\<lparr>phi := [[1 / 2], [1]]\<rparr>) [[1, 2], [3, 4]] 0 [0, 1] [[0], [0]]
     = Inr [[- 500000 / 250001], [- 2000000 / 1000001]]"
    by (simp add: array_defs ex_model_def power2_eq_square)
  show ?thesis
    using natgrad_inner_closed_form [OF h1 h2 h3, of "ex_model\<lparr>phi := [[1 / 2], [1]]\<rparr>" 0 "[[0], [0]]"]
      h1 h2 h3 v by simp
qed

section \<open>The floor on the assignment probabilities\<close>

text \<open>
  Claim C10: with non-negative entries of \<open>phi\<close> and a positive variance, every division
  in \<^verbatim>\<open>vb_grad_natgrad\<close> has a positive denominator: the variance, the entries
  \<open>(phi[n,i] + 1e-6) / variance\<close> that are inverted for \<open>B_inv\<close>, and \<open>phi[n,i]\<^sup>2 + 1e-6\<close>
  in the one-hot perturbation; so also where an assignment probability is 0.
\<close>

theorem vb_grad_natgrad_denominators_positive:
  assumes ph: "is_mat (N st) (K st) (phi st)" and n0: "0 < N st"
    and nonneg: "\<forall>row\<in>set (phi st). \<forall>p\<in>set row. 0 \<le> p"
    and var: "0 < variance st" and i: "i < K st"
  shows "\<exists>phi_i. column (phi st) (int i) = Inr phi_i \<and>
     natgrad_B_inv st i = Inr (diag (map (\<lambda>p. 1 / B_inv_denominator st p) phi_i)) \<and>
     (\<forall>p\<in>set phi_i. 0 < B_inv_denominator st p) \<and>
     (\<forall>n<N st. getitem2 (phi st) n i = Inr (phi st ! n ! i) \<and>
        0 < perturbation_denominator (phi st ! n ! i))"
proof -
  let ?c = "map (\<lambda>row. row ! i) (phi st)"
  have nc: "ncols (phi st) = K st" by (rule is_mat_ncols [OF ph n0])
  have nr: "nrows (phi st) = N st" by (rule is_mat_nrows [OF ph])
  have col: "column (phi st) (int i) = Inr ?c"
    using i by (simp add: column_def nc)
  have b: "natgrad_B_inv st i = Inr (diag (map (\<lambda>p. 1 / B_inv_denominator st p) ?c))"
    by (simp add: natgrad_B_inv_def col)
  have ge: "0 \<le> p" if "p \<in> set ?c" for p
  proof -
    from that obtain row where row: "row \<in> set (phi st)" "p = row ! i" by auto
    then obtain n where n: "n < N st" "row = phi st ! n"
      using is_mat_length [OF ph] by (auto simp: in_set_conv_nth)
    have "i < length row" using is_mat_nth [OF ph n(1)] i n(2) by simp
    then have "p \<in> set row" using row(2) by simp
    then show ?thesis using nonneg row(1) by blast
  qed
  have d1: "\<forall>p\<in>set ?c. 0 < B_inv_denominator st p"
  proof
    fix p assume "p \<in> set ?c"
    then have "0 \<le> p" by (rule ge)
    then have "0 < p + 1 / 1000000" by simp
    then show "0 < B_inv_denominator st p"
      using var by (simp add: B_inv_denominator_def)
  qed
  have d2: "\<forall>n<N st. getitem2 (phi st) n i = Inr (phi st ! n ! i) \<and>
      0 < perturbation_denominator (phi st ! n ! i)"
  proof (intro allI impI conjI)
    fix n assume n: "n < N st"
    show "getitem2 (phi st) n i = Inr (phi st ! n ! i)"
      using n i by (simp add: getitem2_def nr nc)
    have "0 \<le> (phi st ! n ! i)\<^sup>2" by simp
    then show "0 < perturbation_denominator (phi st ! n ! i)"
      unfolding perturbation_denominator_def by linarith
  qed
  show ?thesis using col b d1 d2 by blast
qed

theorem vb_grad_natgrad_denominators_positive_witness:
  "column (phi (ex_model\<lparr>phi := [[0, 1]], K := 2\<rparr>)) 0 = Inr [0] \<and>
   B_inv_denominator (ex_model\<lparr>phi := [[0, 1]], K := 2\<rparr>) 0 = 1 / 1000000 \<and>
   perturbation_denominator 0 = 1 / 1000000 \<and>
   (\<exists>phi_i. column (phi (ex_model\<lparr>phi := [[0, 1]], K := 2\<rparr>)) (int 0) = Inr phi_i \<and>
     (\<forall>p\<in>set phi_i. 0 < B_inv_denominator (ex_model\<lparr>phi := [[0, 1]], K := 2\<rparr>) p))"
proof -
  let ?st = "ex_model\<lparr>phi := [[0, 1]], K := 2\<rparr>"
  have h1: "is_mat (N ?st) (K ?st) (phi ?st)" and h2: "0 < N ?st"
    and h3: "\<forall>row\<in>set (phi ?st). \<forall>p\<in>set row. 0 \<le> p"
    and h4: "0 < variance ?st" and h5: "0 < K ?st"
    by (simp_all add: ex_model_def is_mat_def)
  have a: "column (phi ?st) 0 = Inr [0]"
    by (simp add: ex_model_def column_def ncols_def)
  have b: "B_inv_denominator ?st 0 = 1 / 1000000"
    by (simp add: B_inv_denominator_def ex_model_def)
  have c: "perturbation_denominator 0 = 1 / 1000000"
    by (simp add: perturbation_denominator_def)
  from vb_grad_natgrad_denominators_positive [OF h1 h2 h3 h4 h5]
  have "\<exists>phi_i. column (phi ?st) (int 0) = Inr phi_i \<and>
     (\<forall>p\<in>set phi_i. 0 < B_inv_denominator ?st p)" by blast
  then show ?thesis using a b c by blast
qed

text \<open>
  Claim C2 says that the floor is added to \<open>phi\<close> wherever \<open>B_inv\<close> is built, except in
  \<^verbatim>\<open>predict\<close>. The first loop of \<^verbatim>\<open>update_kern_grads\<close> (line 59) builds \<open>B_inv\<close> without
  it, where the second loop of the same function (line 75), \<^verbatim>\<open>bound\<close> and
  \<^verbatim>\<open>vb_grad_natgrad\<close> add it: for \<open>phi = [[1]]\<close> and variance 1 the first loop works with
  \<open>B_inv = [[1]]\<close>, the others with \<open>[[1000000/1000001]]\<close>.
\<close>

theorem ukg_B_inv_has_no_floor:
  "ukg_B_inv ex_model 0 = Inr [[1]] \<and>
   ukg_variance_B_inv ex_model 0 = Inr [[1000000 / 1000001]] \<and>
   bound_B_inv ex_model 0 = Inr [[1000000 / 1000001]] \<and>
   natgrad_B_inv ex_model 0 = Inr [[1000000 / 1000001]] \<and>
   predict_B_inv ex_model 0 = Inr [[1]] \<and>
   ukg_dL_dK ex_env ex_model 0 0 = Inr [[- 1 / 8]]"
  by (simp add: ukg_B_inv_def ukg_variance_B_inv_def bound_B_inv_def natgrad_B_inv_def
      predict_B_inv_def B_inv_denominator_def ukg_dL_dK_def array_defs ex_defs)

section \<open>The value of the bound\<close>

lemma broadcast2_same_eq:
  assumes A: "is_mat r c A" and B: "is_mat r c B" and r: "0 < r"
  shows "broadcast2 f A B = Inr (map2 (map2 f) A B)"
proof -
  let ?C = "map2 (\<lambda>a b. map2 f (stretch c a) (stretch c b)) A B"
  have lA: "length A = r" and lB: "length B = r"
    using A B by (simp_all add: is_mat_length)
  have e: "broadcast2 f A B = Inr ?C"
    by (simp add: broadcast2_def is_mat_nrows [OF A] is_mat_nrows [OF B]
        is_mat_ncols [OF A r] is_mat_ncols [OF B r] bdim_same stretch_same lA lB)
  have "?C = map2 (map2 f) A B"
  proof (rule nth_equalityI)
    show "length ?C = length (map2 (map2 f) A B)" by simp
    fix i assume "i < length ?C"
    then have i: "i < r" using lA lB by simp
    show "?C ! i = map2 (map2 f) A B ! i"
      using i lA lB by (simp add: stretch_same is_mat_nth [OF A] is_mat_nth [OF B])
  qed
  then show ?thesis using e by simp
qed

lemma np_add_mat_add: "is_mat r c A \<Longrightarrow> is_mat r c B \<Longrightarrow> 0 < r \<Longrightarrow> np_add A B = Inr (mat_add A B)"
  by (simp add: np_add_def mat_add_def broadcast2_same_eq)

lemma np_sub_mat_sub: "is_mat r c A \<Longrightarrow> is_mat r c B \<Longrightarrow> 0 < r \<Longrightarrow> np_sub A B = Inr (mat_sub A B)"
  by (simp add: np_sub_def mat_sub_def broadcast2_same_eq)

lemma diag_mat: "length v = n \<Longrightarrow> is_mat n n (diag v)"
  by (simp add: diag_def is_mat_def list_all_length)

lemma column_nat:
  "is_mat r c A \<Longrightarrow> 0 < r \<Longrightarrow> i < c \<Longrightarrow> column A (int i) = Inr (map (\<lambda>row. row ! i) A)"
  by (simp add: column_def is_mat_ncols)

lemma np_T_mat: "is_mat r c A \<Longrightarrow> 0 < r \<Longrightarrow> is_mat c r (np_T A)"
  by (simp add: np_T_def is_mat_ncols is_mat_def list_all_length)

lemma np_dot_mat_mul:
  "is_mat a b A \<Longrightarrow> is_mat b c B \<Longrightarrow> 0 < a \<Longrightarrow> np_dot A B = Inr (mat_mul A B)"
  by (simp add: np_dot_def is_mat_ncols is_mat_nrows)

lemma bound_B_inv_floored:
  assumes ph: "is_mat (N st) (K st) (phi st)" and n0: "0 < N st" and i: "i < K st"
  shows "bound_B_inv st i = Inr (B_inv_floored st i)"
  by (simp add: bound_B_inv_def column_nat [OF ph n0 i] B_inv_floored_def comp_def)

lemma B_inv_floored_mat: "is_mat (N st) (K st) (phi st) \<Longrightarrow> is_mat (N st) (N st) (B_inv_floored st i)"
  by (simp add: B_inv_floored_def diag_mat is_mat_length)

lemma bound_terms_value:
  assumes ph: "is_mat (N st) (K st) (phi st)" and n0: "0 < N st" and i: "i < K st"
    and Ym: "is_mat (N st) (D st) (Y st)" and d0: "0 < D st"
    and kK: "kern_K env (heap st kr) (X st) = Inr Km" and Km: "is_mat (N st) (N st) Km"
    and cf: "cho_factor env (mat_add Km (B_inv_floored st i)) = Inr c"
    and cs: "cho_solve env c (Y st) = Inr alpha" and al: "is_mat (N st) (D st) alpha"
    and sl: "slogdet env (mat_add Km (B_inv_floored st i)) = Inr (sg, ld)"
  shows "bound_terms env st i kr =
    Inr (- (1 / 2) * trace (mat_mul (np_T (Y st)) alpha), - (1 / 2) * ld,
         - (1 / 2) * (\<Sum>n<N st. phi st ! n ! i * ln (2 * pi * variance st)))"
proof -
  have add: "np_add Km (B_inv_floored st i) = Inr (mat_add Km (B_inv_floored st i))"
    by (rule np_add_mat_add [OF Km B_inv_floored_mat [OF ph] n0])
  have dot: "np_dot (np_T (Y st)) alpha = Inr (mat_mul (np_T (Y st)) alpha)"
    by (rule np_dot_mat_mul [OF np_T_mat [OF Ym n0] al d0])
  have lph: "length (phi st) = N st" by (rule is_mat_length [OF ph])
  have sm: "sum_list (map ((\<lambda>p. p * ln (2 * pi * variance st)) \<circ> (\<lambda>row. row ! i)) (phi st))
      = (\<Sum>n<N st. phi st ! n ! i * ln (2 * pi * variance st))"
    using lph by (simp add: sum_list_nth [of _ "N st"])
  show ?thesis
    by (simp add: bound_terms_def kK bound_B_inv_floored [OF ph n0 i] add cf cs dot sl
        column_nat [OF ph n0 i] sm)
qed

lemma bound_loop_sum:
  assumes "\<forall>j<length ks. bound_terms env st (i0 + j) (ks ! j) = Inr (f (i0 + j))"
  shows "bound_loop env st (enumerate i0 ks) acc =
    Inr (acc + (\<Sum>j<length ks. fst (f (i0 + j)) + fst (snd (f (i0 + j))) + snd (snd (f (i0 + j)))))"
  using assms
proof (induction ks arbitrary: i0 acc)
  case Nil
  show ?case by simp
next
  case (Cons k ks)
  have h: "bound_terms env st i0 k = Inr (f i0)" using Cons.prems by auto
  have t: "\<forall>j<length ks. bound_terms env st (Suc i0 + j) (ks ! j) = Inr (f (Suc i0 + j))"
    using Cons.prems by auto
  obtain a b c where f0: "f i0 = (a, b, c)" by (cases "f i0") auto
  have "bound_loop env st (enumerate i0 (k # ks)) acc
      = bound_loop env st (enumerate (Suc i0) ks) (acc + a + b + c)"
    by (simp add: h f0)
  also have "\<dots> = Inr (acc + a + b + c +
      (\<Sum>j<length ks. fst (f (Suc i0 + j)) + fst (snd (f (Suc i0 + j))) + snd (snd (f (Suc i0 + j)))))"
    by (rule Cons.IH [OF t])
  also have "\<dots> = Inr (acc +
      (\<Sum>j<length (k # ks). fst (f (i0 + j)) + fst (snd (f (i0 + j))) + snd (snd (f (i0 + j)))))"
  proof -
    let ?g = "\<lambda>j. fst (f (i0 + j)) + fst (snd (f (i0 + j))) + snd (snd (f (i0 + j)))"
    have sh: "(\<Sum>j<Suc (length ks). ?g j) = ?g 0 + (\<Sum>j<length ks. ?g (Suc j))"
      by (rule sum.lessThan_Suc_shift)
    show ?thesis
      by (simp add: sh f0 del: sum.lessThan_Suc)
  qed
  finally show ?case .
qed

text \<open>
  Claim C1. Take a model with \<open>K\<close> kernels, \<open>N \<ge> 1\<close> data points, \<open>Y\<close> of \<open>N\<close> rows, a positive
  variance and a non-negative \<open>N\<close> by \<open>K\<close> array \<open>phi\<close>, and suppose that for every component
  \<open>i\<close> the kernel gives an \<open>N\<close> by \<open>N\<close> covariance \<open>K\<^sub>i\<close>, the Cholesky solve returns a solution
  \<open>alpha\<^sub>i\<close> of \<open>(K\<^sub>i + B_inv\<^sub>i) alpha = Y\<close> with \<open>B_inv\<^sub>i = diag (variance / (phi[:, i] + 1e-6))\<close>,
  and \<^verbatim>\<open>slogdet\<close> returns the log-determinant of \<open>K\<^sub>i + B_inv\<^sub>i\<close>. Then \<^verbatim>\<open>bound\<close> returns the
  sum over the components of \<open>- 1/2 trace (Y\<^sup>T alpha\<^sub>i) - 1/2 log |K\<^sub>i + B_inv\<^sub>i|
  - 1/2 \<Sum>\<^sub>n phi[n,i] log (2 pi variance)\<close>, plus the mixing-proportion bound and the entropy
  \<open>H\<close>. The positive variance and the non-negative \<open>phi\<close> keep every division away from 0.
\<close>

theorem bound_value:
  assumes ph: "is_mat (N st) (K st) (phi st)" and n0: "0 < N st"
    and kl: "length (kern st) = K st"
    and Ym: "is_mat (N st) (D st) (Y st)" and d0: "0 < D st"
    and var: "0 < variance st"
    and nonneg: "\<forall>row\<in>set (phi st). \<forall>p\<in>set row. 0 \<le> p"
    and comps: "\<forall>i<K st.
        kern_K env (heap st (kern st ! i)) (X st) = Inr (Km i) \<and>
        is_mat (N st) (N st) (Km i) \<and>
        cho_factor env (mat_add (Km i) (B_inv_floored st i)) = Inr (c i) \<and>
        cho_solve env (c i) (Y st) = Inr (alpha i) \<and>
        is_mat (N st) (D st) (alpha i) \<and>
        mat_mul (mat_add (Km i) (B_inv_floored st i)) (alpha i) = Y st \<and>
        slogdet env (mat_add (Km i) (B_inv_floored st i)) = Inr (sg i, ld i)"
  shows "bound env st =
    (Inr ((\<Sum>i<K st. bound_component st (alpha i) (ld i) i)
            + mixing_prop_bound env st + H st), st)"
proof -
  let ?f = "\<lambda>i. (- (1 / 2) * trace (mat_mul (np_T (Y st)) (alpha i)), - (1 / 2) * ld i,
         - (1 / 2) * (\<Sum>n<N st. phi st ! n ! i * ln (2 * pi * variance st)))"
  have terms: "\<forall>j<length (kern st). bound_terms env st (0 + j) (kern st ! j) = Inr (?f (0 + j))"
  proof (intro allI impI)
    fix j assume "j < length (kern st)"
    then have j: "j < K st" using kl by simp
    from comps j have
      kK: "kern_K env (heap st (kern st ! j)) (X st) = Inr (Km j)"
      and Kmm: "is_mat (N st) (N st) (Km j)"
      and cf: "cho_factor env (mat_add (Km j) (B_inv_floored st j)) = Inr (c j)"
      and cs: "cho_solve env (c j) (Y st) = Inr (alpha j)"
      and al: "is_mat (N st) (D st) (alpha j)"
      and sl: "slogdet env (mat_add (Km j) (B_inv_floored st j)) = Inr (sg j, ld j)"
      by blast+
    show "bound_terms env st (0 + j) (kern st ! j) = Inr (?f (0 + j))"
      using bound_terms_value [OF ph n0 j Ym d0 kK Kmm cf cs al sl] by simp
  qed
  have loop: "bound_loop env st (enumerate 0 (kern st)) 0 =
      Inr (0 + (\<Sum>j<length (kern st).
        fst (?f (0 + j)) + fst (snd (?f (0 + j))) + snd (snd (?f (0 + j)))))"
    by (rule bound_loop_sum [OF terms])
  have sum: "(\<Sum>j<length (kern st).
        fst (?f (0 + j)) + fst (snd (?f (0 + j))) + snd (snd (?f (0 + j))))
      = (\<Sum>i<K st. bound_component st (alpha i) (ld i) i)"
    by (simp add: kl bound_component_def)
  show ?thesis
    using loop sum by (simp add: bound_def)
qed

theorem bound_value_witness:
  "fst (bound ex_env ex_model) =
     Inr (bound_component ex_model [[1000001 / 2000001]] (ln (2000001 / 1000001)) 0) \<and>
   bound_component ex_model [[1000001 / 2000001]] (ln (2000001 / 1000001)) 0 =
     - (1000001 / 4000002) - 1 / 2 * ln (2000001 / 1000001) - 1 / 2 * ln (2 * pi) \<and>
   mat_mul (mat_add [[1]] (B_inv_floored ex_model 0)) [[1000001 / 2000001]] = Y ex_model"
proof -
  have h1: "is_mat (N ex_model) (K ex_model) (phi ex_model)" and h2: "0 < N ex_model"
    and h3: "length (kern ex_model) = K ex_model"
    and h4: "is_mat (N ex_model) (D ex_model) (Y ex_model)" and h5: "0 < D ex_model"
    and h6: "0 < variance ex_model"
    and h7: "\<forall>row\<in>set (phi ex_model). \<forall>p\<in>set row. 0 \<le> p"
    by (simp_all add: ex_model_def is_mat_def)
  have B: "B_inv_floored ex_model 0 = [[1000000 / 1000001]]"
    by (simp add: B_inv_floored_def diag_def ex_model_def)
  have A: "mat_add [[1]] (B_inv_floored ex_model 0) = [[2000001 / 1000001]]"
    by (simp add: B mat_add_def)
  have sol: "mat_mul (mat_add [[1]] (B_inv_floored ex_model 0)) [[1000001 / 2000001]] = Y ex_model"
    by (simp only: A) (simp add: mat_mul_def np_T_def ncols_def dotp_def ex_model_def)
  have h8: "\<forall>i<K ex_model.
        kern_K ex_env (heap ex_model (kern ex_model ! i)) (X ex_model) = Inr ((\<lambda>_. [[1]]) i) \<and>
        is_mat (N ex_model) (N ex_model) ((\<lambda>_. [[1]]) i) \<and>
        cho_factor ex_env (mat_add ((\<lambda>_. [[1]]) i) (B_inv_floored ex_model i))
           = Inr ((\<lambda>_. Chol [[2000001 / 1000001]]) i) \<and>
        cho_solve ex_env ((\<lambda>_. Chol [[2000001 / 1000001]]) i) (Y ex_model)
           = Inr ((\<lambda>_. [[1000001 / 2000001]]) i) \<and>
        is_mat (N ex_model) (D ex_model) ((\<lambda>_. [[1000001 / 2000001]]) i) \<and>
        mat_mul (mat_add ((\<lambda>_. [[1]]) i) (B_inv_floored ex_model i)) ((\<lambda>_. [[1000001 / 2000001]]) i)
           = Y ex_model \<and>
        slogdet ex_env (mat_add ((\<lambda>_. [[1]]) i) (B_inv_floored ex_model i))
           = Inr ((\<lambda>_. 1) i, (\<lambda>_. ln (2000001 / 1000001)) i)"
  proof (intro allI impI)
    fix i assume "i < K ex_model"
    then have i: "i = 0" by (simp add: ex_model_def)
    show "kern_K ex_env (heap ex_model (kern ex_model ! i)) (X ex_model) = Inr ((\<lambda>_. [[1]]) i) \<and>
        is_mat (N ex_model) (N ex_model) ((\<lambda>_. [[1]]) i) \<and>
        cho_factor ex_env (mat_add ((\<lambda>_. [[1]]) i) (B_inv_floored ex_model i))
           = Inr ((\<lambda>_. Chol [[2000001 / 1000001]]) i) \<and>
        cho_solve ex_env ((\<lambda>_. Chol [[2000001 / 1000001]]) i) (Y ex_model)
           = Inr ((\<lambda>_. [[1000001 / 2000001]]) i) \<and>
        is_mat (N ex_model) (D ex_model) ((\<lambda>_. [[1000001 / 2000001]]) i) \<and>
        mat_mul (mat_add ((\<lambda>_. [[1]]) i) (B_inv_floored ex_model i)) ((\<lambda>_. [[1000001 / 2000001]]) i)
           = Y ex_model \<and>
        slogdet ex_env (mat_add ((\<lambda>_. [[1]]) i) (B_inv_floored ex_model i))
           = Inr ((\<lambda>_. 1) i, (\<lambda>_. ln (2000001 / 1000001)) i)"
      unfolding i using sol
      by (simp only: A) (simp add: ex_defs is_mat_def)
  qed
  have v: "bound_component ex_model [[1000001 / 2000001]] (ln (2000001 / 1000001)) 0 =
     - (1000001 / 4000002) - 1 / 2 * ln (2000001 / 1000001) - 1 / 2 * ln (2 * pi)"
    by (simp add: bound_component_def mat_mul_def np_T_def ncols_def nrows_def dotp_def trace_def
        ex_model_def)
  have k1: "K ex_model = 1" and m0: "mixing_prop_bound ex_env ex_model = 0" and hh: "H ex_model = 0"
    by (simp_all add: ex_model_def ex_env_def)
  from bound_value [OF h1 h2 h3 h4 h5 h6 h7 h8]
  have "fst (bound ex_env ex_model) =
     Inr (bound_component ex_model [[1000001 / 2000001]] (ln (2000001 / 1000001)) 0)"
    by (simp add: k1 m0 hh)
  then show ?thesis using v sol by blast
qed

section \<open>The predictive distribution\<close>

lemma column_int:
  "is_mat r c A \<Longrightarrow> 0 < r \<Longrightarrow> 0 \<le> i \<Longrightarrow> i < int c \<Longrightarrow>
   column A i = Inr (map (\<lambda>row. row ! nat i) A)"
  by (simp add: column_def is_mat_ncols)

lemma getitem_int: "0 \<le> i \<Longrightarrow> i < int (length xs) \<Longrightarrow> getitem xs i = Inr (xs ! nat i)"
  by (simp add: getitem_def)

lemma predict_B_inv_unfloored:
  assumes ph: "is_mat (N st) (K st) (phi st)" and n0: "0 < N st"
    and i0: "0 \<le> i" and i1: "i < int (K st)"
  shows "predict_B_inv st i = Inr (B_inv_unfloored st (nat i))"
  by (simp add: predict_B_inv_def column_int [OF ph n0 i0 i1] B_inv_unfloored_def comp_def)

lemma B_inv_unfloored_mat:
  "is_mat (N st) (K st) (phi st) \<Longrightarrow> is_mat (N st) (N st) (B_inv_unfloored st i)"
  by (simp add: B_inv_unfloored_def diag_mat is_mat_length)

lemma sadd_mat: "is_mat r c A \<Longrightarrow> is_mat r c (sadd v A)"
  by (simp add: sadd_def is_mat_def list_all_length)

lemma mat_mul_mat: "is_mat a b A \<Longrightarrow> is_mat b c B \<Longrightarrow> 0 < b \<Longrightarrow> is_mat a c (mat_mul A B)"
  by (simp add: mat_mul_def np_T_def is_mat_ncols is_mat_def list_all_length)

text \<open>
  Claim C7. For a component index \<open>0 \<le> i < K\<close> whose column of \<open>phi\<close> has no zero, new inputs
  for which the kernel gives an \<open>N\<close> by \<open>m\<close> array \<open>kx = K(X, Xnew)\<close> and an \<open>m\<close> by \<open>m\<close> array
  \<open>kxx = K(Xnew, Xnew)\<close>, and solutions \<open>a\<close> and \<open>b\<close> that the direct solve returns for
  \<open>(K\<^sub>i + B_inv\<^sub>i) a = Y\<close> and \<open>(K\<^sub>i + B_inv\<^sub>i) b = kx\<close>, where \<open>B_inv\<^sub>i = diag (variance / phi[:, i])\<close>
  has no floor: \<^verbatim>\<open>predict\<close> returns the mean \<open>kx\<^sup>T a\<close> and the variance
  \<open>variance + kxx - kx\<^sup>T b\<close>, the scalar variance added to every entry of \<open>kxx\<close>, and leaves
  the model as it was.
\<close>

theorem predict_value:
  assumes ph: "is_mat (N st) (K st) (phi st)" and n0: "0 < N st"
    and kl: "length (kern st) = K st"
    and i0: "0 \<le> i" and i1: "i < int (K st)"
    and var: "0 < variance st"
    and nz: "\<forall>row\<in>set (phi st). row ! nat i \<noteq> 0"
    and kK: "kern_K env (heap st (kern st ! nat i)) (X st) = Inr Km"
    and Km: "is_mat (N st) (N st) Km"
    and kx: "kern_K2 env (heap st (kern st ! nat i)) (X st) Xnew = Inr kx"
    and kxm: "is_mat (N st) m kx" and m0: "0 < m"
    and kxx: "kern_K2 env (heap st (kern st ! nat i)) Xnew Xnew = Inr kxx"
    and kxxm: "is_mat m m kxx"
    and s1: "linalg_solve env (mat_add Km (B_inv_unfloored st (nat i))) (Y st) = Inr a"
    and a1: "is_mat (N st) (D st) a"
    and a2: "mat_mul (mat_add Km (B_inv_unfloored st (nat i))) a = Y st"
    and s2: "linalg_solve env (mat_add Km (B_inv_unfloored st (nat i))) kx = Inr b"
    and b1: "is_mat (N st) m b"
    and b2: "mat_mul (mat_add Km (B_inv_unfloored st (nat i))) b = kx"
  shows "predict env st Xnew i =
    (Inr (mat_mul (np_T kx) a,
          mat_sub (sadd (variance st) kxx) (mat_mul (np_T kx) b)), st)"
proof -
  have g: "getitem (kern st) i = Inr (kern st ! nat i)"
    using i0 i1 kl by (simp add: getitem_int)
  have B: "predict_B_inv st i = Inr (B_inv_unfloored st (nat i))"
    by (rule predict_B_inv_unfloored [OF ph n0 i0 i1])
  have add: "np_add Km (B_inv_unfloored st (nat i)) = Inr (mat_add Km (B_inv_unfloored st (nat i)))"
    by (rule np_add_mat_add [OF Km B_inv_unfloored_mat [OF ph] n0])
  have T: "is_mat m (N st) (np_T kx)" by (rule np_T_mat [OF kxm n0])
  have d1: "np_dot (np_T kx) a = Inr (mat_mul (np_T kx) a)"
    by (rule np_dot_mat_mul [OF T a1 m0])
  have d2: "np_dot (np_T kx) b = Inr (mat_mul (np_T kx) b)"
    by (rule np_dot_mat_mul [OF T b1 m0])
  have q: "is_mat m m (mat_mul (np_T kx) b)" by (rule mat_mul_mat [OF T b1 n0])
  have sub: "np_sub (sadd (variance st) kxx) (mat_mul (np_T kx) b)
      = Inr (mat_sub (sadd (variance st) kxx) (mat_mul (np_T kx) b))"
    by (rule np_sub_mat_sub [OF sadd_mat [OF kxxm] q m0])
  show ?thesis
    by (simp add: predict_def g kK kx B add s1 d1 kxx s2 d2 sub)
qed

theorem predict_value_witness:
  "predict ex_env ex_model [[3], [4]] 0 =
     (Inr ([[1 / 2], [1 / 2]], [[3 / 2, 3 / 2], [3 / 2, 3 / 2]]), ex_model) \<and>
   mat_add [[1]] (B_inv_unfloored ex_model 0) = [[2]] \<and>
   mat_mul [[2]] [[1 / 2]] = Y ex_model \<and>
   mat_mul [[2]] [[1 / 2, 1 / 2]] = [[1, 1]]"
proof -
  have B: "B_inv_unfloored ex_model 0 = [[1]]"
    by (simp add: B_inv_unfloored_def diag_def ex_model_def)
  have A: "mat_add [[1]] (B_inv_unfloored ex_model 0) = [[2]]"
    by (simp add: B mat_add_def)
  have z: "nat 0 = 0" by simp
  have h1: "is_mat (N ex_model) (K ex_model) (phi ex_model)" and h2: "0 < N ex_model"
    and h3: "length (kern ex_model) = K ex_model"
    and h4: "(0::int) \<le> 0" and h5: "0 < int (K ex_model)"
    and h6: "0 < variance ex_model"
    and h7: "\<forall>row\<in>set (phi ex_model). row ! nat 0 \<noteq> 0"
    and h8: "kern_K ex_env (heap ex_model (kern ex_model ! nat 0)) (X ex_model) = Inr [[1]]"
    and h9: "is_mat (N ex_model) (N ex_model) [[1]]"
    and h10: "kern_K2 ex_env (heap ex_model (kern ex_model ! nat 0)) (X ex_model) [[3], [4]]
        = Inr [[1, 1]]"
    and h11: "is_mat (N ex_model) 2 [[1, 1]]" and h12: "0 < (2::nat)"
    and h13: "kern_K2 ex_env (heap ex_model (kern ex_model ! nat 0)) [[3], [4]] [[3], [4]]
        = Inr [[1, 1], [1, 1]]"
    and h14: "is_mat 2 2 [[1, 1], [1, 1]]"
    and h16: "is_mat (N ex_model) (D ex_model) [[1 / 2]]"
    and h19: "is_mat (N ex_model) 2 [[1 / 2, 1 / 2]]"
    by (simp_all add: ex_defs is_mat_def)
  have h15: "linalg_solve ex_env (mat_add [[1]] (B_inv_unfloored ex_model (nat 0))) (Y ex_model)
      = Inr [[1 / 2]]"
    by (simp only: z A) (simp add: ex_defs)
  have h18: "linalg_solve ex_env (mat_add [[1]] (B_inv_unfloored ex_model (nat 0))) [[1, 1]]
      = Inr [[1 / 2, 1 / 2]]"
    by (simp only: z A) (simp add: ex_defs)
  have m1: "mat_mul [[2]] [[1 / 2]] = Y ex_model"
    by (simp add: mat_mul_def np_T_def ncols_def dotp_def ex_model_def)
  have m2: "mat_mul [[2]] [[1 / 2, 1 / 2]] = [[1, 1]]"
    by (simp add: mat_mul_def np_T_def ncols_def dotp_def)
  have h17: "mat_mul (mat_add [[1]] (B_inv_unfloored ex_model (nat 0))) [[1 / 2]] = Y ex_model"
    by (simp only: z A m1)
  have h20: "mat_mul (mat_add [[1]] (B_inv_unfloored ex_model (nat 0))) [[1 / 2, 1 / 2]] = [[1, 1]]"
    by (simp only: z A m2)
  have v1: "mat_mul (np_T [[1, 1]]) [[1 / 2]] = [[1 / 2], [1 / 2]]"
    by (simp add: mat_mul_def np_T_def ncols_def dotp_def upt_rec)
  have v2: "mat_sub (sadd (variance ex_model) [[1, 1], [1, 1]]) (mat_mul (np_T [[1, 1]]) [[1 / 2, 1 / 2]])
      = [[3 / 2, 3 / 2], [3 / 2, 3 / 2]]"
    by (simp add: mat_sub_def sadd_def mat_mul_def np_T_def ncols_def dotp_def ex_model_def upt_rec)
  from predict_value [OF h1 h2 h3 h4 h5 h6 h7 h8 h9 h10 h11 h12 h13 h14 h15 h16 h17 h18 h19 h20]
  have "predict ex_env ex_model [[3], [4]] 0 =
     (Inr ([[1 / 2], [1 / 2]], [[3 / 2, 3 / 2], [3 / 2, 3 / 2]]), ex_model)"
    by (simp only: v1 v2)
  then show ?thesis using A m1 m2 by blast
qed

section \<open>The gradient of the noise variance\<close>

lemma ukg_variance_term_frame:
  "ukg_variance_term env (st\<lparr>variance_gradient := g\<rparr>) i kr = ukg_variance_term env st i kr"
  by (simp add: ukg_variance_term_def ukg_variance_B_inv_def)

lemma ukg_variance_sum_frame:
  "ukg_variance_sum env (st\<lparr>variance_gradient := g\<rparr>) ks acc = ukg_variance_sum env st ks acc"
  by (induction ks arbitrary: acc) (auto simp: ukg_variance_term_frame)

lemma ukg_variance_loop_sum:
  "ukg_variance_loop env ks acc st = (Inr g, st') \<Longrightarrow>
   ukg_variance_sum env st ks acc = Inr g \<and>
   st' = (if ks = [] then st else st\<lparr>variance_gradient := g\<rparr>)"
proof (induction ks arbitrary: acc st)
  case Nil
  then show ?case by simp
next
  case (Cons ik ks)
  obtain i kr where ik: "ik = (i, kr)" by (cases ik)
  from Cons.prems obtain t where t: "ukg_variance_term env st i kr = Inr t"
    and rest: "ukg_variance_loop env ks (acc + t) (st\<lparr>variance_gradient := acc + t\<rparr>) = (Inr g, st')"
    unfolding ik by (auto split: sum.splits)
  from Cons.IH [OF rest]
  have s: "ukg_variance_sum env st ks (acc + t) = Inr g"
    and st': "st' = (if ks = [] then st\<lparr>variance_gradient := acc + t\<rparr>
                    else st\<lparr>variance_gradient := acc + t\<rparr>\<lparr>variance_gradient := g\<rparr>)"
    by (simp_all add: ukg_variance_sum_frame)
  have gl: "ks = [] \<Longrightarrow> g = acc + t" using s by simp
  have "ukg_variance_sum env st (ik # ks) acc = Inr g"
    by (simp add: ik t s)
  moreover have "st' = st\<lparr>variance_gradient := g\<rparr>"
    using st' gl by (cases "ks = []") simp_all
  ultimately show ?case by simp
qed

lemma ukg_variance_sum_terms:
  "ukg_variance_sum env st ks acc = Inr g \<Longrightarrow>
   \<exists>ts. length ts = length ks \<and>
        (\<forall>j<length ks. ukg_variance_term env st (fst (ks ! j)) (snd (ks ! j)) = Inr (ts ! j)) \<and>
        g = acc + sum_list ts"
proof (induction ks arbitrary: acc)
  case Nil
  then show ?case by simp
next
  case (Cons ik ks)
  obtain i kr where ik: "ik = (i, kr)" by (cases ik)
  from Cons.prems obtain t where t: "ukg_variance_term env st i kr = Inr t"
    and rest: "ukg_variance_sum env st ks (acc + t) = Inr g"
    unfolding ik by (auto simp: ebind_eq_Inr)
  from Cons.IH [OF rest] obtain ts where ts: "length ts = length ks"
    "\<forall>j<length ks. ukg_variance_term env st (fst (ks ! j)) (snd (ks ! j)) = Inr (ts ! j)"
    "g = acc + t + sum_list ts" by blast
  have a: "length (t # ts) = length (ik # ks)" using ts(1) by simp
  have b: "\<forall>j<length (ik # ks).
      ukg_variance_term env st (fst ((ik # ks) ! j)) (snd ((ik # ks) ! j)) = Inr ((t # ts) ! j)"
  proof (intro allI impI)
    fix j assume "j < length (ik # ks)"
    then show "ukg_variance_term env st (fst ((ik # ks) ! j)) (snd ((ik # ks) ! j)) = Inr ((t # ts) ! j)"
      using ts(2) t ik by (cases j) simp_all
  qed
  have c: "g = acc + sum_list (t # ts)" using ts(3) by simp
  show ?case using a b c by blast
qed

lemma ukg_kern_loop_kern: "kern (snd (ukg_kern_loop env ks st)) = kern st"
proof (induction ks arbitrary: st)
  case Nil
  show ?case by simp
next
  case (Cons ik ks)
  obtain i kr where ik: "ik = (i, kr)" by (cases ik)
  show ?case unfolding ik
    by (simp add: Cons.IH split: sum.splits)
qed

text \<open>
  The write inside the loop against one write after the loop, and the gradient as the sum
  of the terms that the loop body computes.
\<close>

lemma update_kern_grads_running_sum:
  assumes ok: "fst (update_kern_grads env st) = Inr ()" and ne: "kern st \<noteq> []"
  shows "update_kern_grads env st = update_kern_grads_assign_after env st \<and>
    (\<exists>ts. length ts = length (kern st) \<and>
       (\<forall>i<length (kern st).
          ukg_variance_term env (snd (ukg_kern_loop env (enumerate 0 (kern st)) st)) i (kern st ! i)
            = Inr (ts ! i)) \<and>
       variance_gradient (snd (update_kern_grads env st)) = sum_list ts)"
proof -
  obtain r1 st1 where l1: "ukg_kern_loop env (enumerate 0 (kern st)) st = (r1, st1)"
    by (cases "ukg_kern_loop env (enumerate 0 (kern st)) st")
  have k1: "kern st1 = kern st"
    using ukg_kern_loop_kern [of env "enumerate 0 (kern st)" st] l1 by simp
  from ok l1 obtain u where r1: "r1 = Inr u"
    by (cases r1) (simp_all add: update_kern_grads_def)
  obtain r2 st2 where l2: "ukg_variance_loop env (enumerate 0 (kern st)) 0 st1 = (r2, st2)"
    by (cases "ukg_variance_loop env (enumerate 0 (kern st)) 0 st1")
  from ok l1 r1 l2 k1 obtain g where r2: "r2 = Inr g"
    by (cases r2) (simp_all add: update_kern_grads_def)
  have res: "update_kern_grads env st = (Inr (), st2)"
    by (simp add: update_kern_grads_def l1 r1 k1 l2 r2)
  have nee: "enumerate 0 (kern st) \<noteq> []" using ne by (cases "kern st") simp_all
  from ukg_variance_loop_sum [OF l2 [unfolded r2]] nee
  have s: "ukg_variance_sum env st1 (enumerate 0 (kern st)) 0 = Inr g"
    and st2: "st2 = st1\<lparr>variance_gradient := g\<rparr>" by simp_all
  have eq: "update_kern_grads env st = update_kern_grads_assign_after env st"
    by (simp add: res update_kern_grads_assign_after_def l1 r1 k1 s st2)
  from ukg_variance_sum_terms [OF s] obtain ts where ts:
    "length ts = length (enumerate 0 (kern st))"
    "\<forall>j<length (enumerate 0 (kern st)).
       ukg_variance_term env st1 (fst (enumerate 0 (kern st) ! j)) (snd (enumerate 0 (kern st) ! j))
         = Inr (ts ! j)"
    "g = 0 + sum_list ts" by blast
  have a: "length ts = length (kern st)" using ts(1) by simp
  have b: "\<forall>i<length (kern st). ukg_variance_term env st1 i (kern st ! i) = Inr (ts ! i)"
    using ts(2) by (simp add: nth_enumerate_eq)
  have c: "variance_gradient (snd (update_kern_grads env st)) = sum_list ts"
    using ts(3) by (simp add: res st2)
  have st1': "snd (ukg_kern_loop env (enumerate 0 (kern st)) st) = st1" by (simp add: l1)
  show ?thesis
    using eq a b c unfolding st1' by blast
qed

lemma ukg_kern_loop_heap: "\<exists>h. snd (ukg_kern_loop env ks st) = st\<lparr>heap := h\<rparr>"
proof (induction ks arbitrary: st)
  case Nil
  show ?case by (rule exI [of _ "heap st"]) simp
next
  case (Cons ik ks)
  obtain i kr where ik: "ik = (i, kr)" by (cases ik)
  show ?case
  proof (cases "ukg_dL_dK env st i kr")
    case (Inl e)
    show ?thesis by (rule exI [of _ "heap st"]) (simp add: ik Inl)
  next
    case (Inr d)
    show ?thesis
    proof (cases "update_gradients_full env (heap st kr) d (X st)")
      case (Inl e)
      show ?thesis by (rule exI [of _ "heap st"]) (simp add: ik Inr Inl)
    next
      case (Inr k')
      from Cons.IH [of "st\<lparr>heap := (heap st)(kr := k')\<rparr>"]
      obtain h where "snd (ukg_kern_loop env ks (st\<lparr>heap := (heap st)(kr := k')\<rparr>))
          = st\<lparr>heap := (heap st)(kr := k')\<rparr>\<lparr>heap := h\<rparr>" by blast
      then show ?thesis
        using \<open>ukg_dL_dK env st i kr = Inr d\<close> Inr
        by (intro exI [of _ h]) (simp add: ik)
    qed
  qed
qed

lemma tdot_mat: "length a = n \<Longrightarrow> is_mat n n (tdot a)"
  by (simp add: tdot_def is_mat_def list_all_length)

lemma mat_sub_mat: "is_mat r c A \<Longrightarrow> is_mat r c B \<Longrightarrow> is_mat r c (mat_sub A B)"
  by (simp add: mat_sub_def is_mat_def list_all_length)

lemma ukg_variance_term_value:
  assumes ph: "is_mat (N st) (K st) (phi st)" and n0: "0 < N st" and i: "i < K st"
    and kK: "kern_K env (heap st kr) (X st) = Inr Km" and Km: "is_mat (N st) (N st) Km"
    and ls: "linalg_solve env (mat_add Km (B_inv_floored st i)) (Y st) = Inr alpha"
    and al: "length alpha = N st"
    and pd: "pdinv env (mat_add Km (B_inv_floored st i)) = Inr Kinv"
    and Kinv: "is_mat (N st) (N st) Kinv"
  shows "ukg_variance_term env st i kr =
    Inr (variance_gradient_term st (mat_sub (tdot alpha) Kinv) i)"
proof -
  have B: "ukg_variance_B_inv st i = Inr (B_inv_floored st i)"
    by (simp add: ukg_variance_B_inv_def column_nat [OF ph n0 i] B_inv_floored_def comp_def)
  have add: "np_add Km (B_inv_floored st i) = Inr (mat_add Km (B_inv_floored st i))"
    by (rule np_add_mat_add [OF Km B_inv_floored_mat [OF ph] n0])
  have sub: "np_sub (tdot alpha) Kinv = Inr (mat_sub (tdot alpha) Kinv)"
    by (rule np_sub_mat_sub [OF tdot_mat [OF al] Kinv n0])
  have dm: "is_mat (N st) (N st) (mat_sub (tdot alpha) Kinv)"
    by (rule mat_sub_mat [OF tdot_mat [OF al] Kinv])
  have g: "is_mat (N st) (N st) (diag (map (\<lambda>row. 1 / (row ! i + 1 / 1000000)) (phi st)))"
    by (rule diag_mat) (simp add: is_mat_length [OF ph])
  have dot: "np_dot (mat_sub (tdot alpha) Kinv)
        (diag (map (\<lambda>row. 1 / (row ! i + 1 / 1000000)) (phi st)))
      = Inr (mat_mul (mat_sub (tdot alpha) Kinv)
        (diag (map (\<lambda>row. 1 / (row ! i + 1 / 1000000)) (phi st))))"
    by (rule np_dot_mat_mul [OF dm g n0])
  show ?thesis
    by (simp add: ukg_variance_term_def kK B add ls pd sub column_nat [OF ph n0 i] comp_def dot
        variance_gradient_term_def)
qed

text \<open>
  Claim C6: in a model with \<open>K\<close> kernels, \<open>K\<close> at least 1, with positive \<open>phi\<close> and variance,
  when \<^verbatim>\<open>update_kern_grads\<close> completes, the assignment of the running sum inside the loop
  leaves the state that one assignment after the loop leaves, and the gradient of the
  variance on exit is \<open>\<Sum>\<^sub>i 1/2 trace (dL/dB\<^sub>i diag (1 / (phi[:, i] + 1e-6)))\<close> over all \<open>K\<close>
  components, with \<open>dL/dB\<^sub>i = alpha\<^sub>i alpha\<^sub>i\<^sup>T - (K\<^sub>i + B_inv\<^sub>i)\<^sup>-\<^sup>1\<close> from the results \<open>alpha\<^sub>i\<close> of
  the solver and \<open>(K\<^sub>i + B_inv\<^sub>i)\<^sup>-\<^sup>1\<close> of the inversion, the kernels being those that the first
  loop has left.
\<close>

theorem update_kern_grads_variance_gradient:
  assumes ph: "is_mat (N st) (K st) (phi st)" and n0: "0 < N st"
    and kl: "length (kern st) = K st" and k0: "0 < K st"
    and var: "0 < variance st"
    and pos: "\<forall>row\<in>set (phi st). \<forall>p\<in>set row. 0 < p"
    and ok: "fst (update_kern_grads env st) = Inr ()"
    and comps: "\<forall>i<K st.
        kern_K env (heap (snd (ukg_kern_loop env (enumerate 0 (kern st)) st)) (kern st ! i)) (X st)
          = Inr (Km i) \<and>
        is_mat (N st) (N st) (Km i) \<and>
        linalg_solve env (mat_add (Km i) (B_inv_floored st i)) (Y st) = Inr (alpha i) \<and>
        length (alpha i) = N st \<and>
        pdinv env (mat_add (Km i) (B_inv_floored st i)) = Inr (Kinv i) \<and>
        is_mat (N st) (N st) (Kinv i)"
  shows "update_kern_grads env st = update_kern_grads_assign_after env st \<and>
    variance_gradient (snd (update_kern_grads env st)) =
      (\<Sum>i<K st. variance_gradient_term st (mat_sub (tdot (alpha i)) (Kinv i)) i)"
proof -
  let ?st1 = "snd (ukg_kern_loop env (enumerate 0 (kern st)) st)"
  obtain h where st1: "?st1 = st\<lparr>heap := h\<rparr>"
    using ukg_kern_loop_heap [of env "enumerate 0 (kern st)" st] by blast
  have ne: "kern st \<noteq> []" using kl k0 by auto
  from update_kern_grads_running_sum [OF ok ne]
  obtain ts where eq: "update_kern_grads env st = update_kern_grads_assign_after env st"
    and lts: "length ts = length (kern st)"
    and ts: "\<forall>i<length (kern st). ukg_variance_term env ?st1 i (kern st ! i) = Inr (ts ! i)"
    and g: "variance_gradient (snd (update_kern_grads env st)) = sum_list ts"
    by blast
  have val: "ts ! i = variance_gradient_term st (mat_sub (tdot (alpha i)) (Kinv i)) i"
    if i: "i < K st" for i
  proof -
    from comps i have
      kK: "kern_K env (heap ?st1 (kern st ! i)) (X st) = Inr (Km i)"
      and Kmm: "is_mat (N st) (N st) (Km i)"
      and ls: "linalg_solve env (mat_add (Km i) (B_inv_floored st i)) (Y st) = Inr (alpha i)"
      and al: "length (alpha i) = N st"
      and pd: "pdinv env (mat_add (Km i) (B_inv_floored st i)) = Inr (Kinv i)"
      and Ki: "is_mat (N st) (N st) (Kinv i)"
      by blast+
    let ?s = "st\<lparr>heap := h\<rparr>"
    have B: "B_inv_floored ?s i = B_inv_floored st i" by (simp add: B_inv_floored_def)
    have ph': "is_mat (N ?s) (K ?s) (phi ?s)" and n0': "0 < N ?s" and i': "i < K ?s"
      using ph n0 i by simp_all
    have kK': "kern_K env (heap ?s (kern st ! i)) (X ?s) = Inr (Km i)"
      using kK by (simp add: st1)
    have Kmm': "is_mat (N ?s) (N ?s) (Km i)" using Kmm by simp
    have ls': "linalg_solve env (mat_add (Km i) (B_inv_floored ?s i)) (Y ?s) = Inr (alpha i)"
      using ls by (simp add: B)
    have al': "length (alpha i) = N ?s" using al by simp
    have pd': "pdinv env (mat_add (Km i) (B_inv_floored ?s i)) = Inr (Kinv i)"
      using pd by (simp add: B)
    have Ki': "is_mat (N ?s) (N ?s) (Kinv i)" using Ki by simp
    have "ukg_variance_term env ?s i (kern st ! i) =
        Inr (variance_gradient_term ?s (mat_sub (tdot (alpha i)) (Kinv i)) i)"
      by (rule ukg_variance_term_value [OF ph' n0' i' kK' Kmm' ls' al' pd' Ki'])
    moreover have "ukg_variance_term env ?s i (kern st ! i) = Inr (ts ! i)"
      using ts i kl by (simp add: st1)
    moreover have "variance_gradient_term ?s (mat_sub (tdot (alpha i)) (Kinv i)) i
        = variance_gradient_term st (mat_sub (tdot (alpha i)) (Kinv i)) i"
      by (simp add: variance_gradient_term_def)
    ultimately show ?thesis by simp
  qed
  have "sum_list ts = (\<Sum>i<K st. ts ! i)"
    using lts kl by (simp add: sum_list_nth [of _ "K st"])
  also have "\<dots> = (\<Sum>i<K st. variance_gradient_term st (mat_sub (tdot (alpha i)) (Kinv i)) i)"
    by (rule sum.cong) (simp_all add: val)
  finally show ?thesis using eq g by simp
qed

theorem update_kern_grads_variance_gradient_witness:
  "fst (update_kern_grads ex_env ex_model2) = Inr () \<and>
   update_kern_grads ex_env ex_model2 = update_kern_grads_assign_after ex_env ex_model2 \<and>
   variance_gradient (snd (update_kern_grads ex_env ex_model2)) =
     variance_gradient_term ex_model2
       (mat_sub (tdot [[250001 / 1250001]]) [[250001 / 1250001]]) 0 +
     variance_gradient_term ex_model2
       (mat_sub (tdot [[750001 / 2500002]]) [[750001 / 2500002]]) 1 \<and>
   variance_gradient_term ex_model2
       (mat_sub (tdot [[250001 / 1250001]]) [[250001 / 1250001]]) 0
     = - 500000000000 / 1562502500001 \<and>
   variance_gradient_term ex_model2
       (mat_sub (tdot [[750001 / 2500002]]) [[750001 / 2500002]]) 1
     = - 218750125000 / 1562502500001"
proof -
  let ?Km = "\<lambda>i::nat. if i = 0 then [[1]] else [[2::real]]"
  let ?al = "\<lambda>i::nat. if i = 0 then [[250001 / 1250001]] else [[750001 / 2500002::real]]"
  have loop1: "snd (ukg_kern_loop ex_env (enumerate 0 (kern ex_model2)) ex_model2) =
      ex_model2\<lparr>heap := (heap ex_model2)(0 := (1, - 2 / 25), 1 := (2, - 21 / 200))\<rparr>"
    by (simp add: ukg_dL_dK_def ukg_B_inv_def array_defs ex_defs ex_model2_def upt_rec)
  have ok: "fst (update_kern_grads ex_env ex_model2) = Inr ()"
    by (simp add: update_kern_grads_def ukg_dL_dK_def ukg_B_inv_def ukg_variance_term_def
        ukg_variance_B_inv_def array_defs ex_defs ex_model2_def upt_rec)
  have h1: "is_mat (N ex_model2) (K ex_model2) (phi ex_model2)" and h2: "0 < N ex_model2"
    and h3: "length (kern ex_model2) = K ex_model2" and h4: "0 < K ex_model2"
    and h5: "0 < variance ex_model2"
    and h6: "\<forall>row\<in>set (phi ex_model2). \<forall>p\<in>set row. 0 < p"
    by (simp_all add: ex_model2_def is_mat_def)
  have B0: "B_inv_floored ex_model2 0 = [[1000000 / 250001]]"
    and B1: "B_inv_floored ex_model2 1 = [[1000000 / 750001]]"
    by (simp_all add: B_inv_floored_def diag_def ex_model2_def)
  have c0: "kern_K ex_env (heap (snd (ukg_kern_loop ex_env (enumerate 0 (kern ex_model2)) ex_model2))
          (kern ex_model2 ! 0)) (X ex_model2) = Inr [[1]] \<and>
        is_mat (N ex_model2) (N ex_model2) [[1]] \<and>
        linalg_solve ex_env (mat_add [[1]] (B_inv_floored ex_model2 0)) (Y ex_model2)
          = Inr [[250001 / 1250001]] \<and>
        length [[250001 / 1250001 :: real]] = N ex_model2 \<and>
        pdinv ex_env (mat_add [[1]] (B_inv_floored ex_model2 0)) = Inr [[250001 / 1250001]] \<and>
        is_mat (N ex_model2) (N ex_model2) [[250001 / 1250001]]"
    by (simp only: loop1 B0) (simp add: ex_defs ex_model2_def is_mat_def mat_add_def)
  have c1: "kern_K ex_env (heap (snd (ukg_kern_loop ex_env (enumerate 0 (kern ex_model2)) ex_model2))
          (kern ex_model2 ! 1)) (X ex_model2) = Inr [[2]] \<and>
        is_mat (N ex_model2) (N ex_model2) [[2]] \<and>
        linalg_solve ex_env (mat_add [[2]] (B_inv_floored ex_model2 1)) (Y ex_model2)
          = Inr [[750001 / 2500002]] \<and>
        length [[750001 / 2500002 :: real]] = N ex_model2 \<and>
        pdinv ex_env (mat_add [[2]] (B_inv_floored ex_model2 1)) = Inr [[750001 / 2500002]] \<and>
        is_mat (N ex_model2) (N ex_model2) [[750001 / 2500002]]"
    by (simp only: loop1 B1) (simp add: ex_defs ex_model2_def is_mat_def mat_add_def)
  have k2: "K ex_model2 = 2" by (simp add: ex_model2_def)
  have h8: "\<forall>i<K ex_model2.
        kern_K ex_env (heap (snd (ukg_kern_loop ex_env (enumerate 0 (kern ex_model2)) ex_model2))
          (kern ex_model2 ! i)) (X ex_model2) = Inr (?Km i) \<and>
        is_mat (N ex_model2) (N ex_model2) (?Km i) \<and>
        linalg_solve ex_env (mat_add (?Km i) (B_inv_floored ex_model2 i)) (Y ex_model2)
          = Inr (?al i) \<and>
        length (?al i) = N ex_model2 \<and>
        pdinv ex_env (mat_add (?Km i) (B_inv_floored ex_model2 i)) = Inr (?al i) \<and>
        is_mat (N ex_model2) (N ex_model2) (?al i)"
  proof (intro allI impI)
    fix i assume "i < K ex_model2"
    then have "i = 0 \<or> i = 1" using k2 by auto
    then show "kern_K ex_env (heap (snd (ukg_kern_loop ex_env (enumerate 0 (kern ex_model2)) ex_model2))
          (kern ex_model2 ! i)) (X ex_model2) = Inr (?Km i) \<and>
        is_mat (N ex_model2) (N ex_model2) (?Km i) \<and>
        linalg_solve ex_env (mat_add (?Km i) (B_inv_floored ex_model2 i)) (Y ex_model2)
          = Inr (?al i) \<and>
        length (?al i) = N ex_model2 \<and>
        pdinv ex_env (mat_add (?Km i) (B_inv_floored ex_model2 i)) = Inr (?al i) \<and>
        is_mat (N ex_model2) (N ex_model2) (?al i)"
      using c0 c1 by auto
  qed
  from update_kern_grads_variance_gradient [OF h1 h2 h3 h4 h5 h6 ok h8]
  have eq: "update_kern_grads ex_env ex_model2 = update_kern_grads_assign_after ex_env ex_model2"
    and g: "variance_gradient (snd (update_kern_grads ex_env ex_model2)) =
      (\<Sum>i<K ex_model2. variance_gradient_term ex_model2 (mat_sub (tdot (?al i)) (?al i)) i)"
    by blast+
  have g': "variance_gradient (snd (update_kern_grads ex_env ex_model2)) =
     variance_gradient_term ex_model2
       (mat_sub (tdot [[250001 / 1250001]]) [[250001 / 1250001]]) 0 +
     variance_gradient_term ex_model2
       (mat_sub (tdot [[750001 / 2500002]]) [[750001 / 2500002]]) 1"
    using g by (simp add: k2 numeral_2_eq_2)
  have t0: "variance_gradient_term ex_model2
       (mat_sub (tdot [[250001 / 1250001]]) [[250001 / 1250001]]) 0
     = - 500000000000 / 1562502500001"
    by (simp add: variance_gradient_term_def mat_sub_def array_defs ex_model2_def)
  have t1: "variance_gradient_term ex_model2
       (mat_sub (tdot [[750001 / 2500002]]) [[750001 / 2500002]]) 1
     = - 218750125000 / 1562502500001"
    by (simp add: variance_gradient_term_def mat_sub_def array_defs ex_model2_def)
  show ?thesis using ok eq g' t0 t1 by blast
qed

section \<open>Inconsistent shapes\<close>




end
